theory Spec2Isabelle
  imports Main "HOL-Library.Char_ord" "HOL-Library.List_Lexorder" "HOL-Library.Multiset"
    "HOL-Library.Word"
begin

section \<open>The comparison engine (package comparator)\<close>

subsection \<open>Strings and formatting\<close>

text \<open>
  Go strings are byte sequences and \<open>sort.Strings\<close> orders them bytewise; \<open>string\<close> with the
  orders of \<open>Char_ord\<close> and \<open>List_Lexorder\<close> is the same order, and \<open>sort\<close> is the sorted
  arrangement of the slice (equal strings are indistinguishable, so stability plays no role).
\<close>

text \<open>The apostrophe of the messages \<open>Key '%s' removed\<close> and \<open>Field '%s' added\<close>.\<close>

definition apostrophe :: string where
  "apostrophe = [CHR 0x27]"

text \<open>The verb \<open>%d\<close> on a non-negative \<open>int\<close> (a length, a count, an index plus one).\<close>

fun itoa :: "nat \<Rightarrow> string" where
  "itoa n = (if n < 10 then [''0123456789'' ! n]
             else itoa (n div 10) @ [''0123456789'' ! (n mod 10)])"

declare itoa.simps [simp del]

text \<open>\<open>strings.Join(elems, sep)\<close>.\<close>

fun Join :: "string list \<Rightarrow> string \<Rightarrow> string" where
  "Join [] sep = []"
| "Join [s] sep = s"
| "Join (s # t # rest) sep = s @ sep @ Join (t # rest) sep"

subsection \<open>Decoded JSON\<close>

text \<open>
  \<open>json.Unmarshal\<close> into an \<open>interface{}\<close> yields \<open>nil\<close>, a \<open>bool\<close>, a \<open>float64\<close>, a
  \<open>string\<close>, a \<open>[]interface{}\<close> or a \<open>map[string]interface{}\<close>. The model is parametric in
  the type \<open>'n\<close> of numbers. An object is the list of its entries in the order in which a
  \<open>range\<close> over the map visits them; a Go map holds every key once.
\<close>

datatype 'n json =
    JNull
  | JBool bool
  | JNumber 'n
  | JString string
  | JArray "'n json list"
  | JObject "(string \<times> 'n json) list"

text \<open>The type assertions \<open>v.([]interface{})\<close> and \<open>v.(map[string]interface{})\<close> with
  their \<open>ok\<close> flag.\<close>

fun asArray :: "'n json \<Rightarrow> 'n json list option" where
  "asArray (JArray arr) = Some arr"
| "asArray v = None"

fun asMap :: "'n json \<Rightarrow> (string \<times> 'n json) list option" where
  "asMap (JObject m) = Some m"
| "asMap v = None"

subsection \<open>The libraries the package calls\<close>

text \<open>
  \<open>encoding/json\<close>, \<open>fmt\<close>, \<open>go-difflib\<close> and \<open>jsondiff\<close> are not part of the repository;
  the package's functions take them as a record of functions. An \<open>error\<close> is its text.
  \<^item> \<open>Unmarshal data\<close>: \<open>json.Unmarshal(data, &v)\<close>, the error or the decoded value;
  \<^item> \<open>Marshal v\<close>: \<open>json.Marshal(v)\<close>, the error or the bytes;
  \<^item> \<open>MarshalIndent v\<close>: the bytes of \<open>json.MarshalIndent(v, "", "  ")\<close> (the source drops
    its error);
  \<^item> \<open>UnifiedDiff a b from to context\<close>: \<open>difflib.GetUnifiedDiffString\<close> of the
    \<open>UnifiedDiff\<close> with \<open>A = SplitLines a\<close>, \<open>B = SplitLines b\<close>, \<open>FromFile\<close>, \<open>ToFile\<close> and
    \<open>Context\<close>: the string, and the error if there is one;
  \<^item> \<open>JsondiffCompare v1 v2\<close>: \<open>jsondiff.Compare(v1, v2)\<close>, the error or the patch;
  \<^item> \<open>MarshalIndentPatch p\<close>: \<open>json.MarshalIndent(patch, "", "  ")\<close>;
  \<^item> \<open>SprintV v\<close>: \<open>fmt.Sprintf("%v", v)\<close>.
\<close>

record ('n, 'p) libs =
  Unmarshal :: "string \<Rightarrow> string + 'n json"
  Marshal :: "'n json \<Rightarrow> string + string"
  MarshalIndent :: "'n json \<Rightarrow> string"
  UnifiedDiff :: "string \<Rightarrow> string \<Rightarrow> string \<Rightarrow> string \<Rightarrow> nat \<Rightarrow> string \<times> string option"
  JsondiffCompare :: "'n json \<Rightarrow> 'n json \<Rightarrow> string + 'p"
  MarshalIndentPatch :: "'p \<Rightarrow> string + string"
  SprintV :: "'n json \<Rightarrow> string"

record DiffResult =
  TextDiff :: string
  JsonPatch :: string
  Summary :: string
  IsJSON :: bool

record CompareOptions =
  KeysOnly :: bool

subsection \<open>Text comparison\<close>

definition isValidJSON :: "('n, 'p) libs \<Rightarrow> string \<Rightarrow> bool" where
  "isValidJSON L data = (case Unmarshal L data of Inl err \<Rightarrow> False | Inr js \<Rightarrow> True)"

definition compareAsText ::
  "('n, 'p) libs \<Rightarrow> string \<Rightarrow> string \<Rightarrow> string \<Rightarrow> string \<Rightarrow> bool \<Rightarrow> bool \<Rightarrow> string + DiffResult"
where
  "compareAsText L original modified name1 name2 isJSON1 isJSON2 =
     (case UnifiedDiff L original modified name1 name2 3 of
        (textDiff, Some err) \<Rightarrow> Inl (''failed to create text diff: '' @ err)
      | (textDiff, None) \<Rightarrow>
          (let summary =
                 (if \<not> isJSON1 \<and> \<not> isJSON2 then ''Both responses are non-JSON content''
                  else if \<not> isJSON1 then ''Response from '' @ name1 @ '' is not valid JSON''
                  else ''Response from '' @ name2 @ '' is not valid JSON'')
           in if original = modified
              then Inr \<lparr>TextDiff = [], JsonPatch = ''[]'',
                        Summary = summary @ '' (content is identical)'', IsJSON = False\<rparr>
              else Inr \<lparr>TextDiff = textDiff, JsonPatch = ''[]'',
                        Summary = summary, IsJSON = False\<rparr>))"

subsection \<open>Structure-only comparison\<close>

text \<open>
  \<open>extractKeys\<close> replaces every scalar by the marker of its type and keeps of an array its
  first element only. The source's \<open>default\<close> branch (\<open><unknown>\<close>) has no value of type
  \<open>json\<close> to apply to.
\<close>

fun extractKeys :: "'n json \<Rightarrow> 'n json" where
  "extractKeys (JObject val) = JObject (map (\<lambda>(k, child). (k, extractKeys child)) val)"
| "extractKeys (JArray []) = JArray []"
| "extractKeys (JArray (v0 # rest)) = JArray [extractKeys v0]"
| "extractKeys (JString s) = JString ''<string>''"
| "extractKeys (JNumber n) = JString ''<number>''"
| "extractKeys (JBool b) = JString ''<boolean>''"
| "extractKeys JNull = JString ''<null>''"

text \<open>
  \<open>collectAllKeys\<close> returns a \<open>map[string]bool\<close> used as a set: the model is the list of its
  keys, each once (\<open>List.insert\<close> is \<open>keys[k] = true\<close>).
\<close>

fun collectAllKeys :: "'n json \<Rightarrow> string \<Rightarrow> string list" where
  "collectAllKeys (JObject val) prefix =
     fold (\<lambda>(k, child) keys.
             let fullKey = (if prefix \<noteq> [] then prefix @ ''.'' @ k else k)
             in fold List.insert (collectAllKeys child fullKey) (List.insert fullKey keys))
          val []"
| "collectAllKeys (JArray []) prefix = []"
| "collectAllKeys (JArray (v0 # rest)) prefix =
     fold List.insert (collectAllKeys v0 (prefix @ ''[]'')) []"
| "collectAllKeys v prefix = []"

definition keyRemoved :: "string \<Rightarrow> string" where
  "keyRemoved k = ''Key '' @ apostrophe @ k @ apostrophe @ '' removed''"

definition keyAdded :: "string \<Rightarrow> string" where
  "keyAdded k = ''Key '' @ apostrophe @ k @ apostrophe @ '' added''"

definition summarizeKeyDifferences :: "'n json \<Rightarrow> 'n json \<Rightarrow> string" where
  "summarizeKeyDifferences v1 v2 =
     (let keys1 = collectAllKeys v1 [];
          keys2 = collectAllKeys v2 [];
          removed = fold (\<lambda>k changes. if k \<notin> set keys2 then changes @ [keyRemoved k] else changes)
                      keys1 [];
          changes = fold (\<lambda>k changes. if k \<notin> set keys1 then changes @ [keyAdded k] else changes)
                      keys2 removed;
          sorted_changes = sort changes
      in if length sorted_changes = 0 then ''No structural changes (keys match)''
         else Join sorted_changes '', '')"

subsection \<open>Full comparison\<close>

definition deepEqual :: "('n, 'p) libs \<Rightarrow> 'n json \<Rightarrow> 'n json \<Rightarrow> bool" where
  "deepEqual L v1 v2 =
     (case (Marshal L v1, Marshal L v2) of
        (Inr b1, Inr b2) \<Rightarrow> b1 = b2
      | _ \<Rightarrow> False)"

text \<open>The loop \<open>for i := 0; i < len1; i++\<close> of \<open>summarizeArrayDifferences\<close>, from index \<open>i\<close>
  with the count so far.\<close>

function countChanged ::
  "('n, 'p) libs \<Rightarrow> 'n json list \<Rightarrow> 'n json list \<Rightarrow> nat \<Rightarrow> nat \<Rightarrow> nat"
where
  "countChanged L arr1 arr2 i changedCount =
     (if i < length arr1
      then countChanged L arr1 arr2 (i + 1)
             (if \<not> deepEqual L (arr1 ! i) (arr2 ! i) then changedCount + 1 else changedCount)
      else changedCount)"
  by pat_completeness auto
termination
  by (relation "measure (\<lambda>(L, arr1, arr2, i, c). length arr1 - i)") auto

declare countChanged.simps [simp del]

text \<open>The arrow of \<open>Array length changed: %d \<rightarrow> %d items\<close> is U+2192, three bytes in UTF-8.\<close>

definition arrow :: string where
  "arrow = [CHR 0xE2, CHR 0x86, CHR 0x92]"

definition summarizeArrayDifferences ::
  "('n, 'p) libs \<Rightarrow> 'n json list \<Rightarrow> 'n json list \<Rightarrow> string"
where
  "summarizeArrayDifferences L arr1 arr2 =
     (let len1 = length arr1; len2 = length arr2
      in if len1 \<noteq> len2
         then ''Array length changed: '' @ itoa len1 @ '' '' @ arrow @ '' '' @ itoa len2 @ '' items''
         else (let changedCount = countChanged L arr1 arr2 0 0
               in if changedCount = 0 then ''No top-level changes''
                  else ''Array: '' @ itoa changedCount @ '' of '' @ itoa len1 @ '' items changed''))"

definition fieldRemoved :: "string \<Rightarrow> string" where
  "fieldRemoved k = ''Field '' @ apostrophe @ k @ apostrophe @ '' removed''"

definition fieldChanged :: "string \<Rightarrow> string" where
  "fieldChanged k = ''Field '' @ apostrophe @ k @ apostrophe @ '' changed''"

definition fieldAdded :: "string \<Rightarrow> string" where
  "fieldAdded k = ''Field '' @ apostrophe @ k @ apostrophe @ '' added''"

definition summarizeDifferences :: "('n, 'p) libs \<Rightarrow> 'n json \<Rightarrow> 'n json \<Rightarrow> string" where
  "summarizeDifferences L v1 v2 =
     (case (asArray v1, asArray v2) of
        (Some arr1, Some arr2) \<Rightarrow> summarizeArrayDifferences L arr1 arr2
      | _ \<Rightarrow>
        (case (asMap v1, asMap v2) of
           (Some m1, Some m2) \<Rightarrow>
             (let changes1 =
                    fold (\<lambda>(k, val1) changes.
                            case map_of m2 k of
                              None \<Rightarrow> changes @ [fieldRemoved k]
                            | Some val2 \<Rightarrow>
                                if \<not> deepEqual L val1 val2 then changes @ [fieldChanged k]
                                else changes)
                         m1 [];
                  changes =
                    fold (\<lambda>(k, val2) changes.
                            if map_of m1 k = None then changes @ [fieldAdded k] else changes)
                         m2 changes1;
                  sorted_changes = sort changes
              in if length sorted_changes = 0 then ''No top-level changes''
                 else Join sorted_changes '', '')
         | _ \<Rightarrow>
             if SprintV L v1 = SprintV L v2 then ''No top-level changes''
             else ''Top-level value changed''))"

subsection \<open>JSON comparison and the entry point\<close>

definition compareAsJSON ::
  "('n, 'p) libs \<Rightarrow> string \<Rightarrow> string \<Rightarrow> string \<Rightarrow> string \<Rightarrow> CompareOptions \<Rightarrow> string + DiffResult"
where
  "compareAsJSON L original modified name1 name2 opts =
     (case Unmarshal L original of
        Inl err \<Rightarrow> Inl (''invalid json in original: '' @ err)
      | Inr p1 \<Rightarrow>
     (case Unmarshal L modified of
        Inl err \<Rightarrow> Inl (''invalid json in modified: '' @ err)
      | Inr p2 \<Rightarrow>
     (let v1 = (if KeysOnly opts then extractKeys p1 else p1);
          v2 = (if KeysOnly opts then extractKeys p2 else p2);
          original' = (if KeysOnly opts then MarshalIndent L v1 else original);
          modified' = (if KeysOnly opts then MarshalIndent L v2 else modified);
          textDiff = (case UnifiedDiff L original' modified' name1 name2 3 of
                        (d, None) \<Rightarrow> d
                      | (d, Some err) \<Rightarrow> ''Failed to create diff: '' @ err)
      in case JsondiffCompare L v1 v2 of
           Inl err \<Rightarrow> Inl (''jsondiff failed: '' @ err)
         | Inr patch \<Rightarrow>
             (let patchBytes = (case MarshalIndentPatch L patch of
                                  Inl err \<Rightarrow> ''[]'' | Inr b \<Rightarrow> b);
                  summary = (if KeysOnly opts then summarizeKeyDifferences v1 v2
                             else summarizeDifferences L v1 v2)
              in Inr \<lparr>TextDiff = textDiff, JsonPatch = patchBytes,
                       Summary = summary, IsJSON = True\<rparr>))))"

definition CompareWithOptions ::
  "('n, 'p) libs \<Rightarrow> string \<Rightarrow> string \<Rightarrow> string \<Rightarrow> string \<Rightarrow> CompareOptions \<Rightarrow> string + DiffResult"
where
  "CompareWithOptions L original modified name1 name2 opts =
     (let isJSON1 = isValidJSON L original;
          isJSON2 = isValidJSON L modified
      in if \<not> isJSON1 \<or> \<not> isJSON2
         then compareAsText L original modified name1 name2 isJSON1 isJSON2
         else compareAsJSON L original modified name1 name2 opts)"

definition Compare ::
  "('n, 'p) libs \<Rightarrow> string \<Rightarrow> string \<Rightarrow> string \<Rightarrow> string \<Rightarrow> string + DiffResult"
where
  "Compare L original modified name1 name2 =
     CompareWithOptions L original modified name1 name2 \<lparr>KeysOnly = False\<rparr>"

section \<open>Configuration (package config)\<close>

text \<open>
  A test case's \<open>Commands\<close> is a \<open>map[string]string\<close> that the engine only looks up: a
  partial function. The configuration's \<open>Versions\<close> is a \<open>map[string]string\<close> that
  \<open>RunWithContext\<close> and \<open>GetTestCases\<close> range over: the list of its entries in the order
  of the range, every label once (\<open>wf_Config\<close>). \<open>Timeout\<close> is a Go \<open>int\<close> (64 bits),
  a \<open>time.Duration\<close> is an \<open>int64\<close> of nanoseconds; both are read signed.
\<close>

type_synonym Duration = "64 word"

record TestCase =
  Name :: string
  tcCommands :: "string \<rightharpoonup> string"

record Config =
  Versions :: "(string \<times> string) list"
  Commands :: "string list"
  TestCases :: "TestCase list"
  cfgKeysOnly :: bool
  Timeout :: "64 word"

definition wf_Config :: "Config \<Rightarrow> bool" where
  "wf_Config c = distinct (map fst (Versions c))"

definition Second :: Duration where
  "Second = 1000000000"

definition DefaultTimeout :: Duration where
  "DefaultTimeout = 30 * Second"

definition GetTimeout :: "Config \<Rightarrow> Duration" where
  "GetTimeout c = (if sint (Timeout c) \<le> 0 then DefaultTimeout else Timeout c * Second)"

definition GetTestCases :: "Config \<Rightarrow> TestCase list" where
  "GetTestCases c =
     (if length (TestCases c) > 0 then TestCases c
      else map (\<lambda>(i, cmd).
                  \<lparr>Name = ''Command '' @ itoa (i + 1),
                   tcCommands = fold (\<lambda>(version, url) commands. commands(version \<mapsto> cmd))
                                  (Versions c) Map.empty\<rparr>)
               (enumerate 0 (Commands c)))"

section \<open>Running one command (package executor)\<close>

text \<open>
  What the operating system and the shell-word parser answer is given by the world (below).
  \<open>proc\<close> is what \<open>Execute\<close> reads after \<open>cmd.Run()\<close> under its timeout context: whether
  \<open>ctx.Err()\<close> is \<open>context.DeadlineExceeded\<close>, the error of \<open>Run\<close>, the bytes of standard
  output (\<open>None\<close> for a nil slice) and the trimmed standard error. The fields \<open>Timestamp\<close>
  and \<open>Duration\<close> of \<open>ExecutionResult\<close> are wall-clock readings and are left out.
\<close>

record proc =
  DeadlineExceeded :: bool
  RunErr :: "string option"
  Stdout :: "string option"
  StderrText :: string

record ExecutionResult =
  exCommand :: string
  exVersion :: string
  Response :: "string option"
  exError :: string
  Stderr :: string
  exTimedOut :: bool

datatype ctx_error = Canceled | DeadlineExceededErr

fun ctxErrorText :: "ctx_error \<Rightarrow> string" where
  "ctxErrorText Canceled = ''context canceled''"
| "ctxErrorText DeadlineExceededErr = ''context deadline exceeded''"

text \<open>
  The world outside the engine. The first argument of \<open>ctxErr\<close>, \<open>RunProcess\<close>, \<open>Panics\<close>,
  \<open>SaveResponse\<close> and \<open>CompletionOrder\<close> is the index of the test case being run.
  \<^item> \<open>Libs\<close>: the libraries of the comparator;
  \<^item> \<open>ctxErr i\<close>: \<open>ctx.Err()\<close> when the loop checks \<open>ctx.Done()\<close> before test case \<open>i\<close>;
  \<^item> \<open>FinalCmd tmpl url\<close>: \<open>normalizeCommand\<close> followed by the replacement of
    \<open>{{BASE_URL}}\<close>;
  \<^item> \<open>ShellwordsParse\<close>: \<open>shellwords.Parse\<close>;
  \<^item> \<open>RunProcess i version args timeout\<close>: running the command under the timeout;
  \<^item> \<open>Panics i version\<close>: the value a panic of the task carries, if the task panics;
  \<^item> \<open>SaveResponse i command version response execErr\<close>: \<open>Store.SaveResponse\<close>, the error
    or the path;
  \<^item> \<open>CompletionOrder i version\<close>: when the task of \<open>version\<close> sends its result, which
    orders the results in the channel;
  \<^item> \<open>ReadFile\<close>: \<open>os.ReadFile\<close>;
  \<^item> \<open>DurationString\<close>: \<open>time.Duration.String\<close>.
\<close>

record ('n, 'p) world =
  Libs :: "('n, 'p) libs"
  ctxErr :: "nat \<Rightarrow> ctx_error option"
  FinalCmd :: "string \<Rightarrow> string \<Rightarrow> string"
  ShellwordsParse :: "string \<Rightarrow> string + string list"
  RunProcess :: "nat \<Rightarrow> string \<Rightarrow> string list \<Rightarrow> Duration \<Rightarrow> proc"
  Panics :: "nat \<Rightarrow> string \<Rightarrow> string option"
  SaveResponse :: "nat \<Rightarrow> string \<Rightarrow> string \<Rightarrow> string option \<Rightarrow> string option \<Rightarrow> string + string"
  CompletionOrder :: "nat \<Rightarrow> string \<Rightarrow> nat"
  ReadFile :: "string \<Rightarrow> string + string"
  DurationString :: "Duration \<Rightarrow> string"

text \<open>\<open>Execute\<close> returns a result that is never nil, and the error. The call of
  \<open>validateCommand\<close> only prints a warning and is left out.\<close>

definition Execute ::
  "('n, 'p) world \<Rightarrow> nat \<Rightarrow> string \<Rightarrow> string \<Rightarrow> string \<Rightarrow> Duration
     \<Rightarrow> ExecutionResult \<times> string option"
where
  "Execute W tcIdx commandTmpl ver baseURL timeout0 =
     (let timeout = (if sint timeout0 \<le> 0 then DefaultTimeout else timeout0);
          finalCmdStr = FinalCmd W commandTmpl baseURL
      in case ShellwordsParse W finalCmdStr of
           Inl e \<Rightarrow>
             (\<lparr>exCommand = finalCmdStr, exVersion = ver, Response = None,
               exError = ''failed to parse command: '' @ e, Stderr = [], exTimedOut = False\<rparr>,
              Some (''failed to parse command: '' @ e))
         | Inr args \<Rightarrow>
             if length args = 0
             then (\<lparr>exCommand = finalCmdStr, exVersion = ver, Response = None,
                    exError = ''empty command after parsing'', Stderr = [], exTimedOut = False\<rparr>,
                   Some ''empty command'')
             else
               (let p = RunProcess W tcIdx ver args timeout;
                    result = \<lparr>exCommand = finalCmdStr, exVersion = ver, Response = None,
                              exError = [], Stderr = StderrText p, exTimedOut = False\<rparr>
                in if DeadlineExceeded p
                   then (result\<lparr>exTimedOut := True,
                                 exError := ''command timed out after '' @ DurationString W timeout\<rparr>,
                         Some (ctxErrorText DeadlineExceededErr))
                   else
                     (case RunErr p of
                        Some e \<Rightarrow>
                          (result\<lparr>exError := ''execution failed: '' @ e @
                                     (if Stderr result \<noteq> [] then '' | stderr: '' @ Stderr result
                                      else [])\<rparr>,
                           Some e)
                      | None \<Rightarrow> (result\<lparr>Response := Stdout p\<rparr>, None))))"

section \<open>The engine (package core)\<close>

record ExecInfo =
  Version :: string
  File :: string
  Error :: string
  TimedOut :: bool

record VersionDiff =
  VersionA :: string
  VersionB :: string
  DiffResult :: "DiffResult option"
  OldContent :: string
  NewContent :: string
  vdError :: string

record CommandResult =
  TestCaseName :: string
  crCommands :: "string \<rightharpoonup> string"
  Command :: string
  Diffs :: "VersionDiff list"
  ExecInfo :: "ExecInfo list"

record RunResult =
  CommandResults :: "CommandResult list"
  Errors :: "string list"

record execResult =
  version :: string
  filePath :: string
  execInfo :: ExecInfo
  err :: "string option"

text \<open>The zero value of \<open>CommandResult\<close>, which \<open>make([]CommandResult, n)\<close> fills the slice
  with.\<close>

definition zeroCommandResult :: CommandResult where
  "zeroCommandResult =
     \<lparr>TestCaseName = [], crCommands = Map.empty, Command = [], Diffs = [], ExecInfo = []\<rparr>"

subsection \<open>One task\<close>

text \<open>
  The body of the goroutine started for one version. A panic anywhere in it is recovered by
  the deferred function, which sends the panic's outcome; otherwise the body sends \<open>result\<close>.
  Either way the task sends once. Log entries, and the \<open>SaveResponse\<close> of a failed execution
  (whose results the source discards), leave no trace in the result.
\<close>

definition goTask ::
  "('n, 'p) world \<Rightarrow> Duration \<Rightarrow> nat \<Rightarrow> string \<Rightarrow> string \<Rightarrow> string \<Rightarrow> execResult"
where
  "goTask W timeout tcIdx v url cmdRaw =
     (case Panics W tcIdx v of
        Some r \<Rightarrow>
          (let errMsg = ''panic during execution: '' @ r
           in \<lparr>version = v, filePath = [],
                execInfo = \<lparr>Version = v, File = [], Error = errMsg, TimedOut = False\<rparr>,
                err = Some errMsg\<rparr>)
      | None \<Rightarrow>
          (case Execute W tcIdx cmdRaw v url timeout of
             (res, e) \<Rightarrow>
               (let result = \<lparr>version = v, filePath = [],
                              execInfo = \<lparr>Version = v, File = [], Error = [],
                                          TimedOut = exTimedOut res\<rparr>,
                              err = None\<rparr>
                in case e of
                     Some errText \<Rightarrow>
                       result\<lparr>execInfo := (execInfo result)
                                 \<lparr>Error := (if exTimedOut res
                                             then ''timeout after '' @ DurationString W timeout
                                             else errText)\<rparr>,
                              err := Some errText\<rparr>
                   | None \<Rightarrow>
                       (case SaveResponse W tcIdx cmdRaw v (Response res) None of
                          Inl saveErr \<Rightarrow>
                            result\<lparr>execInfo := (execInfo result)
                                      \<lparr>Error := ''Save failed: '' @ saveErr\<rparr>,
                                   err := Some saveErr\<rparr>
                        | Inr path \<Rightarrow>
                            result\<lparr>execInfo := (execInfo result)\<lparr>File := path\<rparr>,
                                   filePath := path\<rparr>))))"

subsection \<open>Comparing two stored responses\<close>

definition compareFiles ::
  "('n, 'p) world \<Rightarrow> string \<Rightarrow> string \<Rightarrow> string \<Rightarrow> string \<Rightarrow> bool
     \<Rightarrow> string + (DiffResult \<times> string \<times> string)"
where
  "compareFiles W file1 file2 v1 v2 keysOnly =
     (case ReadFile W file1 of
        Inl e \<Rightarrow> Inl (''read file1 error: '' @ e)
      | Inr b1 \<Rightarrow>
     (case ReadFile W file2 of
        Inl e \<Rightarrow> Inl (''read file2 error: '' @ e)
      | Inr b2 \<Rightarrow>
          if length b1 = 0 then Inl (''empty response content for '' @ v1)
          else if length b2 = 0 then Inl (''empty response content for '' @ v2)
          else (case CompareWithOptions (Libs W) b1 b2 file1 file2 \<lparr>KeysOnly = keysOnly\<rparr> of
                  Inl e \<Rightarrow> Inl e
                | Inr diff \<Rightarrow> Inr (diff, b1, b2))))"

fun joinStrings :: "string list \<Rightarrow> string \<Rightarrow> string" where
  "joinStrings [] sep = []"
| "joinStrings (s # strs) sep = fold (\<lambda>t result. result @ sep @ t) strs s"

text \<open>The body of the loop over adjacent versions: the entry for \<open>vBase\<close> and \<open>vTarget\<close>,
  given the map \<open>results\<close> from version to file path.\<close>

definition versionDiff ::
  "('n, 'p) world \<Rightarrow> bool \<Rightarrow> (string \<rightharpoonup> string) \<Rightarrow> string \<Rightarrow> string \<Rightarrow> VersionDiff"
where
  "versionDiff W keysOnly results vBase vTarget =
     (let vDiff = \<lparr>VersionA = vBase, VersionB = vTarget, DiffResult = None,
                   OldContent = [], NewContent = [], vdError = []\<rparr>
      in case (results vBase, results vTarget) of
           (Some file1, Some file2) \<Rightarrow>
             (case compareFiles W file1 file2 vBase vTarget keysOnly of
                Inl e \<Rightarrow> vDiff\<lparr>vdError := e\<rparr>
              | Inr (diff, old, new) \<Rightarrow>
                  vDiff\<lparr>DiffResult := Some diff, OldContent := old, NewContent := new\<rparr>)
         | (r1, r2) \<Rightarrow>
             (let missing = (if r1 = None then [vBase] else []) @
                            (if r2 = None then [vTarget] else [])
              in vDiff\<lparr>vdError := ''failed to get responses for version(s): '' @
                                    joinStrings missing '', ''\<rparr>))"

subsection \<open>One test case\<close>

text \<open>
  \<open>launched\<close> are the results of the tasks in the order in which the loop over the sorted
  versions starts them; a version without a command in the test case starts none. The
  channel hands them over in the order of their completion. \<open>sort.Slice\<close> by \<open>Version\<close> is
  \<open>sort_key Version\<close>: the versions of one test case's results are distinct, so the sorted
  order is the only one.
\<close>

definition launched ::
  "('n, 'p) world \<Rightarrow> Config \<Rightarrow> string list \<Rightarrow> Duration \<Rightarrow> nat \<Rightarrow> TestCase \<Rightarrow> execResult list"
where
  "launched W cfg versions timeout tcIdx testCase =
     List.map_filter
       (\<lambda>vName.
          (let baseURL = (case map_of (Versions cfg) vName of Some u \<Rightarrow> u | None \<Rightarrow> [])
           in case tcCommands testCase vName of
                None \<Rightarrow> None
              | Some cmdForVersion \<Rightarrow> Some (goTask W timeout tcIdx vName baseURL cmdForVersion)))
       versions"

definition received ::
  "('n, 'p) world \<Rightarrow> Config \<Rightarrow> string list \<Rightarrow> Duration \<Rightarrow> nat \<Rightarrow> TestCase \<Rightarrow> execResult list"
where
  "received W cfg versions timeout tcIdx testCase =
     sort_key (\<lambda>r. CompletionOrder W tcIdx (version r))
       (launched W cfg versions timeout tcIdx testCase)"

definition collectResults :: "execResult list \<Rightarrow> (string \<rightharpoonup> string)" where
  "collectResults rs =
     fold (\<lambda>result results.
             if filePath result \<noteq> [] then results(version result \<mapsto> filePath result)
             else results)
          rs Map.empty"

definition compareVersions ::
  "('n, 'p) world \<Rightarrow> bool \<Rightarrow> (string \<rightharpoonup> string) \<Rightarrow> string list \<Rightarrow> VersionDiff list"
where
  "compareVersions W keysOnly results versions =
     (if length versions > 1
      then map (\<lambda>i. versionDiff W keysOnly results (versions ! i) (versions ! (i + 1)))
             [0 ..< length versions - 1]
      else [])"

definition runTestCase ::
  "('n, 'p) world \<Rightarrow> Config \<Rightarrow> string list \<Rightarrow> Duration \<Rightarrow> nat \<Rightarrow> TestCase \<Rightarrow> CommandResult"
where
  "runTestCase W cfg versions timeout tcIdx testCase =
     (let rs = received W cfg versions timeout tcIdx testCase;
          results = collectResults rs
      in \<lparr>TestCaseName = Name testCase,
           crCommands = tcCommands testCase,
           Command = [],
           Diffs = compareVersions W (cfgKeysOnly cfg) results versions,
           ExecInfo = sort_key Version (map execInfo rs)\<rparr>)"

subsection \<open>The run\<close>

fun runLoop ::
  "('n, 'p) world \<Rightarrow> Config \<Rightarrow> string list \<Rightarrow> Duration \<Rightarrow> nat \<Rightarrow> TestCase list \<Rightarrow> RunResult
     \<Rightarrow> RunResult \<times> ctx_error option"
where
  "runLoop W cfg versions timeout tcIdx [] runResult = (runResult, None)"
| "runLoop W cfg versions timeout tcIdx (testCase # rest) runResult =
     (case ctxErr W tcIdx of
        Some e \<Rightarrow>
          (runResult\<lparr>Errors := Errors runResult @ [''operation cancelled: '' @ ctxErrorText e]\<rparr>,
           Some e)
      | None \<Rightarrow>
          runLoop W cfg versions timeout (tcIdx + 1) rest
            (runResult\<lparr>CommandResults :=
               (CommandResults runResult)
                 [tcIdx := runTestCase W cfg versions timeout tcIdx testCase]\<rparr>))"

definition RunWithContext ::
  "('n, 'p) world \<Rightarrow> Config \<Rightarrow> RunResult \<times> ctx_error option"
where
  "RunWithContext W cfg =
     (let versions = sort (map fst (Versions cfg));
          testCases = GetTestCases cfg;
          runResult = \<lparr>CommandResults = replicate (length testCases) zeroCommandResult,
                       Errors = []\<rparr>;
          timeout = GetTimeout cfg
      in runLoop W cfg versions timeout 0 testCases runResult)"

section \<open>Auxiliary definitions\<close>

text \<open>Names for parts of the definitions above, used to state the lemmas.\<close>

text \<open>What one entry of the left object adds to the list of changes, given the right
  object: the body of the first loop of \<open>summarizeDifferences\<close>.\<close>

definition fieldStep :: "('n, 'p) libs \<Rightarrow> (string \<times> 'n json) list \<Rightarrow> string \<times> 'n json \<Rightarrow> string list" where
  "fieldStep L m2 kv =
     (case map_of m2 (fst kv) of
        None \<Rightarrow> [fieldRemoved (fst kv)]
      | Some val2 \<Rightarrow> if \<not> deepEqual L (snd kv) val2 then [fieldChanged (fst kv)] else [])"

text \<open>
  The reachable key paths of a decoded value, in the words of the specification and not
  of the source: under the path \<open>prefix\<close>, a key \<open>k\<close> of an object is reached by the path
  \<open>prefix.k\<close> (by \<open>k\<close> alone at the top), and so are the key paths of its value from there; an
  array stands for its first element, reached by \<open>prefix[]\<close>; a scalar and an empty array
  have no key. It is a set: neither the order of an object's entries nor the skeleton plays
  a role. \<open>collectAllKeys\<close> is compared with it in \<open>set_collectAllKeys\<close>.
\<close>

fun keyPaths :: "'n json \<Rightarrow> string \<Rightarrow> string set" where
  "keyPaths (JObject val) prefix =
     (\<Union>(k, child) \<in> set val.
        insert (if prefix \<noteq> [] then prefix @ ''.'' @ k else k)
          (keyPaths child (if prefix \<noteq> [] then prefix @ ''.'' @ k else k)))"
| "keyPaths (JArray []) prefix = {}"
| "keyPaths (JArray (v0 # rest)) prefix = keyPaths v0 (prefix @ ''[]'')"
| "keyPaths v prefix = {}"

text \<open>\<open>cfg.Versions[vName]\<close>: the base URL of a version, empty for a label that is not
  configured.\<close>

definition baseURLOf :: "Config \<Rightarrow> string \<Rightarrow> string" where
  "baseURLOf cfg vName = (case map_of (Versions cfg) vName of Some u \<Rightarrow> u | None \<Rightarrow> [])"

text \<open>The result of the task that a test case starts for a version that has a command in
  it.\<close>

definition taskOf ::
  "('n, 'p) world \<Rightarrow> Config \<Rightarrow> Duration \<Rightarrow> nat \<Rightarrow> TestCase \<Rightarrow> string \<Rightarrow> execResult" where
  "taskOf W cfg timeout tcIdx testCase vName =
     goTask W timeout tcIdx vName (baseURLOf cfg vName) (the (tcCommands testCase vName))"

text \<open>The results of the test cases \<open>tcs\<close>, the first of which has index \<open>i\<close>.\<close>

definition ranCases ::
  "('n, 'p) world \<Rightarrow> Config \<Rightarrow> string list \<Rightarrow> Duration \<Rightarrow> nat \<Rightarrow> TestCase list \<Rightarrow> CommandResult list"
where
  "ranCases W cfg vs t i tcs = map (\<lambda>(j, tc). runTestCase W cfg vs t j tc) (enumerate i tcs)"

text \<open>The sorted version labels that \<open>RunWithContext\<close> computes first.\<close>

definition sortedVersions :: "Config \<Rightarrow> string list" where
  "sortedVersions cfg = sort (map fst (Versions cfg))"

text \<open>The content locator that a command result records for a version label: the file of
  the label's outcome, when the outcome has one (a path that is not empty).\<close>

definition locator :: "CommandResult \<Rightarrow> string \<Rightarrow> string option" where
  "locator cr v = map_option File (find (\<lambda>e. Version e = v \<and> File e \<noteq> []) (ExecInfo cr))"

section \<open>A concrete library and world\<close>

text \<open>
  The theorems below hold for every library and every world. Their instances are shown on
  one concrete library and world: the decoder knows the texts of \<open>exampleTexts\<close> and rejects
  every other text, the encoder writes numbers in decimal and an object's keys in sorted
  order, and the diff and patch libraries return a fixed text and the empty patch (the
  instances are about summaries and reports, not about the text of a diff). The world runs
  \<open>curl\<close> against servers: \<open>http://a\<close> and \<open>http://b\<close> answer with JSON,
  \<open>http://slow\<close> exceeds the timeout, \<open>http://empty\<close> answers with no bytes (the
  stored file is empty), and any other server refuses the connection. A command is \<open>curl\<close>
  and the URL, which the parser splits at the blank; the store names the file of a response
  after the version.
\<close>

definition dquote :: string where
  "dquote = [CHR 0x22]"

fun exampleMarshal :: "nat json \<Rightarrow> string" where
  "exampleMarshal JNull = ''null''"
| "exampleMarshal (JBool b) = (if b then ''true'' else ''false'')"
| "exampleMarshal (JNumber n) = itoa n"
| "exampleMarshal (JString s) = dquote @ s @ dquote"
| "exampleMarshal (JArray val) = ''['' @ Join (map exampleMarshal val) '','' @ '']''"
| "exampleMarshal (JObject val) =
     ''{'' @ Join (map (\<lambda>(k, v). dquote @ k @ dquote @ '':'' @ exampleMarshal v)
                    (sort_key fst val)) '','' @ ''}''"

fun exampleSprintV :: "nat json \<Rightarrow> string" where
  "exampleSprintV JNull = ''<nil>''"
| "exampleSprintV (JBool b) = (if b then ''true'' else ''false'')"
| "exampleSprintV (JNumber n) = itoa n"
| "exampleSprintV (JString s) = s"
| "exampleSprintV (JArray val) = ''['' @ Join (map exampleSprintV val) '' '' @ '']''"
| "exampleSprintV (JObject val) =
     ''map['' @ Join (map (\<lambda>(k, v). k @ '':'' @ exampleSprintV v) (sort_key fst val)) '' '' @ '']''"

definition exampleTexts :: "(string \<times> nat json) list" where
  \<open>exampleTexts =
     [(''[1,2,3]'', JArray [JNumber 1, JNumber 2, JNumber 3]),
      (''[1,9,3]'', JArray [JNumber 1, JNumber 9, JNumber 3]),
      (''{"a":1}'', JObject [(''a'', JNumber 1)]),
      (''{"a":1,"b":2}'', JObject [(''a'', JNumber 1), (''b'', JNumber 2)]),
      (''{"a":99,"b":2}'', JObject [(''a'', JNumber 99), (''b'', JNumber 2)]),
      (''{"a":"1","b":2,"c":3}'',
         JObject [(''a'', JString ''1''), (''b'', JNumber 2), (''c'', JNumber 3)]),
      (''{"d":4,"c":3,"a":1}'',
         JObject [(''d'', JNumber 4), (''c'', JNumber 3), (''a'', JNumber 1)]),
      (''{"a":1,"b":{"c":[{"d":1}]},"z":0}'',
         JObject [(''a'', JNumber 1),
                  (''b'', JObject [(''c'', JArray [JObject [(''d'', JNumber 1)]])]),
                  (''z'', JNumber 0)]),
      (''{"e":2,"b":{"c":[{"f":1},{"g":2}]},"a":"x"}'',
         JObject [(''e'', JNumber 2),
                  (''b'', JObject [(''c'', JArray [JObject [(''f'', JNumber 1)],
                                                   JObject [(''g'', JNumber 2)]])]),
                  (''a'', JString ''x'')])]\<close>

definition exampleLibs :: "(nat, unit) libs" where
  "exampleLibs =
     \<lparr>Unmarshal = (\<lambda>data. case map_of exampleTexts data of
                             Some v \<Rightarrow> Inr v
                           | None \<Rightarrow> Inl ''invalid character''),
      Marshal = (\<lambda>v. Inr (exampleMarshal v)),
      MarshalIndent = exampleMarshal,
      UnifiedDiff = (\<lambda>a b from to context. (''@@'', None)),
      JsondiffCompare = (\<lambda>v1 v2. Inr ()),
      MarshalIndentPatch = (\<lambda>p. Inr ''[]''),
      SprintV = exampleSprintV\<rparr>"

definition exampleProc :: "string list \<Rightarrow> proc" where
  \<open>exampleProc args =
     (if args = [''curl'', ''http://a''] then
        \<lparr>DeadlineExceeded = False, RunErr = None, Stdout = Some ''{"a":1}'', StderrText = []\<rparr>
      else if args = [''curl'', ''http://b''] then
        \<lparr>DeadlineExceeded = False, RunErr = None, Stdout = Some ''{"a":1,"b":2}'', StderrText = []\<rparr>
      else if args = [''curl'', ''http://slow''] then
        \<lparr>DeadlineExceeded = True, RunErr = Some ''signal: killed'', Stdout = None, StderrText = []\<rparr>
      else if args = [''curl'', ''http://empty''] then
        \<lparr>DeadlineExceeded = False, RunErr = None, Stdout = Some [], StderrText = []\<rparr>
      else
        \<lparr>DeadlineExceeded = False, RunErr = Some ''exit status 7'', Stdout = None,
         StderrText = ''curl: (7) Failed to connect''\<rparr>)\<close>

definition exampleFiles :: "(string \<times> string) list" where
  \<open>exampleFiles =
     [(''responses/v1.json'', ''{"a":1}''),
      (''responses/v2.json'', ''{"a":1,"b":2}''),
      (''responses/v3.json'', ''{"a":1}''),
      (''responses/v4.json'', [])]\<close>

definition exampleWorld :: "(nat, unit) world" where
  "exampleWorld =
     \<lparr>Libs = exampleLibs,
      ctxErr = (\<lambda>i. None),
      FinalCmd = (\<lambda>tmpl url. ''curl '' @ url),
      ShellwordsParse = (\<lambda>s. Inr [take 4 s, drop 5 s]),
      RunProcess = (\<lambda>i v args timeout. exampleProc args),
      Panics = (\<lambda>i v. None),
      SaveResponse = (\<lambda>i command v response execErr. Inr (''responses/'' @ v @ ''.json'')),
      CompletionOrder = (\<lambda>i v. if v = ''v1'' then 1 else 0),
      ReadFile = (\<lambda>path. case map_of exampleFiles path of
                            Some b \<Rightarrow> Inr b
                          | None \<Rightarrow> Inl (''open '' @ path @ '': no such file or directory'')),
      DurationString = (\<lambda>d. itoa (unat d div 1000000000) @ ''s'')\<rparr>"

definition exampleConfig :: Config where
  "exampleConfig =
     \<lparr>Versions = [(''v2'', ''http://b''), (''v1'', ''http://a'')],
      Commands = [''curl {{BASE_URL}}''],
      TestCases = [],
      cfgKeysOnly = False,
      Timeout = 0\<rparr>"

definition timeoutConfig :: Config where
  "timeoutConfig = exampleConfig\<lparr>Versions := [(''v1'', ''http://a''), (''v2'', ''http://slow'')]\<rparr>"

definition gapConfig :: Config where
  "gapConfig = exampleConfig\<lparr>Versions :=
     [(''v1'', ''http://a''), (''v2'', ''http://down''), (''v3'', ''http://a'')]\<rparr>"

definition emptyConfig :: Config where
  "emptyConfig = exampleConfig\<lparr>Versions := [(''v1'', ''http://a''), (''v4'', ''http://empty'')]\<rparr>"

definition cancelledWorld :: "(nat, unit) world" where
  "cancelledWorld = exampleWorld\<lparr>ctxErr := (\<lambda>i. if i = 0 then None else Some Canceled)\<rparr>"

definition threeCommandsConfig :: Config where
  "threeCommandsConfig =
     exampleConfig\<lparr>Commands := [''curl {{BASE_URL}}'', ''curl {{BASE_URL}}'', ''curl {{BASE_URL}}'']\<rparr>"

definition singleConfig :: Config where
  "singleConfig = exampleConfig\<lparr>Versions := [(''v1'', ''http://a'')]\<rparr>"

section \<open>Properties of the comparison engine\<close>

subsection \<open>The text path, and counting changed positions\<close>

lemma isValidJSON_iff: "isValidJSON L d = (\<exists>v. Unmarshal L d = Inr v)"
  by (cases "Unmarshal L d") (simp_all add: isValidJSON_def)

lemma CompareWithOptions_text:
  assumes "\<not> isValidJSON L original \<or> \<not> isValidJSON L modified"
    and "UnifiedDiff L original modified name1 name2 3 = (d, None)"
  shows "CompareWithOptions L original modified name1 name2 opts =
     Inr \<lparr>TextDiff = (if original = modified then [] else d),
          JsonPatch = ''[]'',
          Summary =
            (if \<not> isValidJSON L original \<and> \<not> isValidJSON L modified
             then ''Both responses are non-JSON content''
             else if \<not> isValidJSON L original
             then ''Response from '' @ name1 @ '' is not valid JSON''
             else ''Response from '' @ name2 @ '' is not valid JSON'')
            @ (if original = modified then '' (content is identical)'' else []),
          IsJSON = False\<rparr>"
  using assms by (auto simp: CompareWithOptions_def compareAsText_def Let_def)

lemma countChanged_eq:
  "countChanged L arr1 arr2 i c =
     c + length (filter (\<lambda>j. \<not> deepEqual L (arr1 ! j) (arr2 ! j)) [i ..< length arr1])"
proof (induction L arr1 arr2 i c rule: countChanged.induct)
  case (1 L arr1 arr2 i c)
  show ?case
  proof (cases "i < length arr1")
    case True
    then have u: "[i ..< length arr1] = i # [i + 1 ..< length arr1]"
      by (simp add: upt_conv_Cons)
    show ?thesis
      using True "1.IH"[OF True] by (subst countChanged.simps) (simp add: u)
  next
    case False
    then show ?thesis by (subst countChanged.simps) simp
  qed
qed

lemma countChanged_card:
  "countChanged L arr1 arr2 0 0 = card {j. j < length arr1 \<and> \<not> deepEqual L (arr1 ! j) (arr2 ! j)}"
proof -
  have "distinct (filter (\<lambda>j. \<not> deepEqual L (arr1 ! j) (arr2 ! j)) [0 ..< length arr1])"
    by simp
  then have "length (filter (\<lambda>j. \<not> deepEqual L (arr1 ! j) (arr2 ! j)) [0 ..< length arr1])
      = card (set (filter (\<lambda>j. \<not> deepEqual L (arr1 ! j) (arr2 ! j)) [0 ..< length arr1]))"
    by (rule distinct_card[symmetric])
  also have "set (filter (\<lambda>j. \<not> deepEqual L (arr1 ! j) (arr2 ! j)) [0 ..< length arr1])
      = {j. j < length arr1 \<and> \<not> deepEqual L (arr1 ! j) (arr2 ! j)}"
    by auto
  finally show ?thesis by (simp add: countChanged_eq)
qed

subsection \<open>Sorted messages depend on the messages only\<close>

lemma sort_cong_mset: "mset xs = mset ys \<Longrightarrow> sort xs = sort (ys :: 'a::linorder list)"
  by (metis properties_for_sort sorted_sort mset_sort)

lemma fold_append_if:
  "fold (\<lambda>k changes. if P k then changes @ [f k] else changes) xs acc = acc @ map f (filter P xs)"
  by (induction xs arbitrary: acc) auto

lemma distinct_fold_insert: "distinct acc \<Longrightarrow> distinct (fold List.insert xs acc)"
  by (induction xs arbitrary: acc) auto

lemma distinct_fold_keys:
  "distinct acc \<Longrightarrow>
   distinct (fold (\<lambda>(k, child) keys. fold List.insert (g k child) (List.insert (h k) keys)) val acc)"
  by (induction val arbitrary: acc) (auto simp: distinct_fold_insert)

lemma distinct_collectAllKeys: "distinct (collectAllKeys v p)"
proof (cases v)
  case (JObject val)
  show ?thesis
    unfolding JObject collectAllKeys.simps Let_def
    by (rule distinct_fold_keys) simp
next
  case (JArray val)
  then show ?thesis by (cases val) (simp_all add: distinct_fold_insert)
qed simp_all

lemma mset_sorted_list_of_set_distinct:
  "distinct xs \<Longrightarrow> mset (sorted_list_of_set (set xs)) = mset xs"
  by (metis mset_set_set mset_sorted_list_of_multiset sorted_list_of_mset_set)

lemma mset_filter_distinct:
  assumes "distinct xs" and "A = set (filter P xs)"
  shows "mset (filter P xs) = mset (sorted_list_of_set A)"
  using mset_sorted_list_of_set_distinct[of "filter P xs"] assms by simp

lemma summarizeKeyDifferences_sets:
  "summarizeKeyDifferences v1 v2 =
     (let K1 = set (collectAllKeys v1 []); K2 = set (collectAllKeys v2 [])
      in if K1 = K2 then ''No structural changes (keys match)''
         else Join (sort (map keyRemoved (sorted_list_of_set (K1 - K2)) @
                          map keyAdded (sorted_list_of_set (K2 - K1)))) '', '')"
proof -
  let ?k1 = "collectAllKeys v1 []" and ?k2 = "collectAllKeys v2 []"
  let ?rem = "filter (\<lambda>k. k \<notin> set ?k2) ?k1" and ?add = "filter (\<lambda>k. k \<notin> set ?k1) ?k2"
  have r: "mset ?rem = mset (sorted_list_of_set (set ?k1 - set ?k2))"
    by (rule mset_filter_distinct[OF distinct_collectAllKeys]) auto
  have a: "mset ?add = mset (sorted_list_of_set (set ?k2 - set ?k1))"
    by (rule mset_filter_distinct[OF distinct_collectAllKeys]) auto
  have s: "sort (map keyRemoved ?rem @ map keyAdded ?add) =
        sort (map keyRemoved (sorted_list_of_set (set ?k1 - set ?k2)) @
              map keyAdded (sorted_list_of_set (set ?k2 - set ?k1)))"
    by (rule sort_cong_mset) (simp only: mset_append mset_map r a)
  have e: "(map keyRemoved ?rem @ map keyAdded ?add = []) = (set ?k1 = set ?k2)"
    by (auto simp: filter_empty_conv)
  have n: "(length (sort (map keyRemoved ?rem @ map keyAdded ?add)) = 0) = (set ?k1 = set ?k2)"
    unfolding length_sort length_0_conv by (rule e)
  have u: "summarizeKeyDifferences v1 v2 =
     (if length (sort (map keyRemoved ?rem @ map keyAdded ?add)) = 0
      then ''No structural changes (keys match)''
      else Join (sort (map keyRemoved ?rem @ map keyAdded ?add)) '', '')"
    unfolding summarizeKeyDifferences_def Let_def fold_append_if append_Nil ..
  show ?thesis
    unfolding u n unfolding s Let_def ..
qed

subsection \<open>The summaries of two objects and of two arrays\<close>

lemma fold_fields1:
  "fold (\<lambda>(k, val1) changes.
           case map_of m2 k of
             None \<Rightarrow> changes @ [fieldRemoved k]
           | Some val2 \<Rightarrow>
               if \<not> deepEqual L val1 val2 then changes @ [fieldChanged k] else changes)
        m1 acc
   = acc @ concat (map (fieldStep L m2) m1)"
  by (induction m1 arbitrary: acc) (auto simp: fieldStep_def split: option.splits)

lemma fold_fields2:
  "fold (\<lambda>(k, val2) changes. if map_of m1 k = None then changes @ [fieldAdded k] else changes)
        m2 acc
   = acc @ map fieldAdded (filter (\<lambda>k. map_of m1 k = None) (map fst m2))"
  by (induction m2 arbitrary: acc) auto

lemma mset_fieldSteps:
  assumes "\<And>k v. (k, v) \<in> set xs \<Longrightarrow> M1 k = Some v"
  shows "mset (concat (map (fieldStep L m2) xs)) =
           mset (map fieldRemoved (filter (\<lambda>k. map_of m2 k = None) (map fst xs))) +
           mset (map fieldChanged
                  (filter (\<lambda>k. k \<in> dom (map_of m2) \<and>
                                \<not> deepEqual L (the (M1 k)) (the (map_of m2 k)))
                          (map fst xs)))"
  using assms
proof (induction xs)
  case Nil
  show ?case by simp
next
  case (Cons kv xs)
  obtain k v where kv: "kv = (k, v)" by (cases kv)
  have m: "M1 k = Some v" using Cons.prems[of k v] by (simp add: kv)
  have ih: "mset (concat (map (fieldStep L m2) xs)) =
           mset (map fieldRemoved (filter (\<lambda>k. map_of m2 k = None) (map fst xs))) +
           mset (map fieldChanged
                  (filter (\<lambda>k. k \<in> dom (map_of m2) \<and>
                                \<not> deepEqual L (the (M1 k)) (the (map_of m2 k)))
                          (map fst xs)))"
    by (rule Cons.IH) (simp add: Cons.prems)
  show ?case
  proof (cases "map_of m2 k")
    case None
    then have fs: "fieldStep L m2 (k, v) = [fieldRemoved k]"
      by (simp add: fieldStep_def)
    show ?thesis using None by (simp add: kv fs ih domIff)
  next
    case (Some v2)
    then have fs: "fieldStep L m2 (k, v) =
        (if \<not> deepEqual L v v2 then [fieldChanged k] else [])"
      by (simp add: fieldStep_def)
    show ?thesis using Some m by (simp add: kv fs ih domIff)
  qed
qed

lemma summarizeDifferences_objects:
  assumes d1: "distinct (map fst m1)" and d2: "distinct (map fst m2)"
  shows "summarizeDifferences L (JObject m1) (JObject m2) =
     (let M1 = map_of m1; M2 = map_of m2;
          removed = sorted_list_of_set (dom M1 - dom M2);
          changed = sorted_list_of_set
                      {k \<in> dom M1 \<inter> dom M2. \<not> deepEqual L (the (M1 k)) (the (M2 k))};
          added = sorted_list_of_set (dom M2 - dom M1);
          msgs = sort (map fieldRemoved removed @ map fieldChanged changed @
                       map fieldAdded added)
      in if msgs = [] then ''No top-level changes'' else Join msgs '', '')"
proof -
  let ?M1 = "map_of m1" and ?M2 = "map_of m2"
  let ?k1 = "map fst m1" and ?k2 = "map fst m2"
  let ?chP = "\<lambda>k. k \<in> dom ?M2 \<and> \<not> deepEqual L (the (?M1 k)) (the (?M2 k))"
  let ?changes = "concat (map (fieldStep L m2) m1) @
                  map fieldAdded (filter (\<lambda>k. ?M1 k = None) ?k2)"
  let ?spec = "map fieldRemoved (sorted_list_of_set (dom ?M1 - dom ?M2)) @
               map fieldChanged (sorted_list_of_set
                  {k \<in> dom ?M1 \<inter> dom ?M2. \<not> deepEqual L (the (?M1 k)) (the (?M2 k))}) @
               map fieldAdded (sorted_list_of_set (dom ?M2 - dom ?M1))"
  have dom1: "dom ?M1 = set ?k1" and dom2: "dom ?M2 = set ?k2"
    by (simp_all add: dom_map_of_conv_image_fst)
  have u: "summarizeDifferences L (JObject m1) (JObject m2) =
      (if length (sort ?changes) = 0 then ''No top-level changes''
       else Join (sort ?changes) '', '')"
    unfolding summarizeDifferences_def asArray.simps asMap.simps Let_def
      fold_fields1 fold_fields2 append_Nil
    by simp
  have r: "mset (filter (\<lambda>k. ?M2 k = None) ?k1) = mset (sorted_list_of_set (dom ?M1 - dom ?M2))"
    by (rule mset_filter_distinct[OF d1]) (auto simp: dom1 domIff)
  have c: "mset (filter ?chP ?k1) =
       mset (sorted_list_of_set
              {k \<in> dom ?M1 \<inter> dom ?M2. \<not> deepEqual L (the (?M1 k)) (the (?M2 k))})"
    by (rule mset_filter_distinct[OF d1]) (auto simp: dom1)
  have a: "mset (filter (\<lambda>k. ?M1 k = None) ?k2) = mset (sorted_list_of_set (dom ?M2 - dom ?M1))"
    by (rule mset_filter_distinct[OF d2]) (auto simp: dom2 domIff)
  have st: "mset (concat (map (fieldStep L m2) m1)) =
           mset (map fieldRemoved (filter (\<lambda>k. ?M2 k = None) ?k1)) +
           mset (map fieldChanged (filter ?chP ?k1))"
    by (rule mset_fieldSteps) (simp add: d1)
  have m: "mset ?changes = mset ?spec"
    unfolding mset_append st mset_map r c a by (simp add: ac_simps)
  have s: "sort ?changes = sort ?spec"
    by (rule sort_cong_mset[OF m])
  have n: "(length (sort ?spec) = 0) = (sort ?spec = [])"
    by (rule length_0_conv)
  show ?thesis
    unfolding u s n Let_def ..
qed

lemma summarizeDifferences_arrays:
  "summarizeDifferences L (JArray arr1) (JArray arr2) =
     (let K = card {j. j < length arr1 \<and> \<not> deepEqual L (arr1 ! j) (arr2 ! j)}
      in if length arr1 \<noteq> length arr2
         then ''Array length changed: '' @ itoa (length arr1) @ '' '' @ arrow @ '' '' @
              itoa (length arr2) @ '' items''
         else if K = 0 then ''No top-level changes''
         else ''Array: '' @ itoa K @ '' of '' @ itoa (length arr1) @ '' items changed'')"
  by (auto simp: summarizeDifferences_def summarizeArrayDifferences_def Let_def
      countChanged_card)

subsection \<open>What \<open>Compare\<close> returns\<close>

lemma compareAsJSON_full_summary:
  assumes "Unmarshal L original = Inr p1" and "Unmarshal L modified = Inr p2"
    and "JsondiffCompare L p1 p2 = Inr patch"
  shows "\<exists>r. Compare L original modified name1 name2 = Inr r \<and>
             Summary r = summarizeDifferences L p1 p2"
  using assms
  by (simp add: Compare_def CompareWithOptions_def isValidJSON_def compareAsJSON_def Let_def)

lemma compareAsJSON_keys_summary:
  assumes "Unmarshal L original = Inr p1" and "Unmarshal L modified = Inr p2"
    and "JsondiffCompare L (extractKeys p1) (extractKeys p2) = Inr patch"
  shows "\<exists>r. CompareWithOptions L original modified name1 name2 \<lparr>KeysOnly = True\<rparr> = Inr r \<and>
             Summary r = summarizeKeyDifferences (extractKeys p1) (extractKeys p2)"
  using assms
  by (simp add: CompareWithOptions_def isValidJSON_def compareAsJSON_def Let_def)

text \<open>The text path fails in one way only: the diff library reports an error.\<close>

lemma CompareWithOptions_text_error:
  assumes "\<not> isValidJSON L original \<or> \<not> isValidJSON L modified"
    and "UnifiedDiff L original modified name1 name2 3 = (d, Some e)"
  shows "CompareWithOptions L original modified name1 name2 opts =
           Inl (''failed to create text diff: '' @ e)"
  using assms by (auto simp: CompareWithOptions_def compareAsText_def Let_def)

text \<open>
  Claim C1. When either buffer fails to decode as JSON, \<open>CompareWithOptions\<close> (and so
  \<open>Compare\<close>) returns no error but a result: its text diff is the unified diff of the two raw
  texts with three lines of context, its summary says which side is not valid JSON (or that
  both are not), and when the two buffers are equal the summary ends in
  \<open>(content is identical)\<close> and the text diff is empty. The diff library is called on the raw
  buffers with context 3; \<open>d\<close> is the string it returns. (The library writes into a buffer
  in memory; the source passes on the error it would report, which by
  \<open>CompareWithOptions_text_error\<close> is the one way for this path to fail.)
\<close>

theorem compare_non_json_falls_back_to_text:
  assumes "\<not> isValidJSON L original \<or> \<not> isValidJSON L modified"
    and "UnifiedDiff L original modified name1 name2 3 = (d, None)"
  shows "(let result =
            \<lparr>TextDiff = (if original = modified then [] else d),
             JsonPatch = ''[]'',
             Summary =
               (if \<not> isValidJSON L original \<and> \<not> isValidJSON L modified
                then ''Both responses are non-JSON content''
                else if \<not> isValidJSON L original
                then ''Response from '' @ name1 @ '' is not valid JSON''
                else ''Response from '' @ name2 @ '' is not valid JSON'')
               @ (if original = modified then '' (content is identical)'' else []),
             IsJSON = False\<rparr>
          in CompareWithOptions L original modified name1 name2 opts = Inr result \<and>
             Compare L original modified name1 name2 = Inr result)"
  using CompareWithOptions_text[OF assms] by (simp add: Compare_def Let_def)

theorem compare_non_json_falls_back_to_text_witness:
  \<open>\<not> isValidJSON exampleLibs ''<html>'' \<and>
   isValidJSON exampleLibs ''{"a":1}'' \<and>
   UnifiedDiff exampleLibs ''<html>'' ''{"a":1}'' ''v1'' ''v2'' 3 = (''@@'', None) \<and>
   Compare exampleLibs ''<html>'' ''{"a":1}'' ''v1'' ''v2'' =
     Inr \<lparr>TextDiff = ''@@'', JsonPatch = ''[]'',
          Summary = ''Response from v1 is not valid JSON'', IsJSON = False\<rparr> \<and>
   UnifiedDiff exampleLibs ''<html>'' ''<html>'' ''v1'' ''v2'' 3 = (''@@'', None) \<and>
   Compare exampleLibs ''<html>'' ''<html>'' ''v1'' ''v2'' =
     Inr \<lparr>TextDiff = [], JsonPatch = ''[]'',
          Summary = ''Both responses are non-JSON content (content is identical)'',
          IsJSON = False\<rparr>\<close>
proof -
  have v: \<open>\<not> isValidJSON exampleLibs ''<html>''\<close> \<open>isValidJSON exampleLibs ''{"a":1}''\<close>
    by (simp_all add: isValidJSON_def exampleLibs_def exampleTexts_def)
  have h1: \<open>\<not> isValidJSON exampleLibs ''<html>'' \<or> \<not> isValidJSON exampleLibs ''{"a":1}''\<close>
    and h1': \<open>\<not> isValidJSON exampleLibs ''<html>'' \<or> \<not> isValidJSON exampleLibs ''<html>''\<close>
    using v by simp_all
  have h2: \<open>UnifiedDiff exampleLibs ''<html>'' ''{"a":1}'' ''v1'' ''v2'' 3 = (''@@'', None)\<close>
    and h2': \<open>UnifiedDiff exampleLibs ''<html>'' ''<html>'' ''v1'' ''v2'' 3 = (''@@'', None)\<close>
    by (simp_all add: exampleLibs_def)
  show ?thesis
    using compare_non_json_falls_back_to_text[OF h1 h2, of "\<lparr>KeysOnly = False\<rparr>"]
      compare_non_json_falls_back_to_text[OF h1' h2', of "\<lparr>KeysOnly = False\<rparr>"] h1 h2 h2' v
    by (simp add: Let_def)
qed

text \<open>
  Claim C5, as amended. In full mode, when both inputs decode to arrays, the summary is:
  the change of length when the lengths differ; otherwise, with \<open>K\<close> the number of positions
  whose elements are not \<open>deepEqual\<close> (equal after \<open>json.Marshal\<close>) and \<open>N\<close> the common
  length, \<open>Array: K of N items changed\<close> when \<open>K > 0\<close>, and \<open>No top-level changes\<close> when
  \<open>K = 0\<close>. The witness is the comparison of \<open>[1,2,3]\<close> with \<open>[1,9,3]\<close>.
\<close>

theorem full_compare_of_arrays:
  assumes "Unmarshal L original = Inr (JArray arr1)"
    and "Unmarshal L modified = Inr (JArray arr2)"
    and "JsondiffCompare L (JArray arr1) (JArray arr2) = Inr patch"
  shows "\<exists>r. Compare L original modified name1 name2 = Inr r \<and>
             Summary r =
               (let K = card {j. j < length arr1 \<and> \<not> deepEqual L (arr1 ! j) (arr2 ! j)}
                in if length arr1 \<noteq> length arr2
                   then ''Array length changed: '' @ itoa (length arr1) @ '' '' @ arrow @ '' '' @
                        itoa (length arr2) @ '' items''
                   else if K = 0 then ''No top-level changes''
                   else ''Array: '' @ itoa K @ '' of '' @ itoa (length arr1) @ '' items changed'')"
  using compareAsJSON_full_summary[OF assms, of name1 name2]
  unfolding summarizeDifferences_arrays .

theorem full_compare_of_arrays_witness:
  \<open>Unmarshal exampleLibs ''[1,2,3]'' = Inr (JArray [JNumber 1, JNumber 2, JNumber 3]) \<and>
   Unmarshal exampleLibs ''[1,9,3]'' = Inr (JArray [JNumber 1, JNumber 9, JNumber 3]) \<and>
   JsondiffCompare exampleLibs (JArray [JNumber 1, JNumber 2, JNumber 3])
     (JArray [JNumber 1, JNumber 9, JNumber 3]) = Inr () \<and>
   (\<exists>r. Compare exampleLibs ''[1,2,3]'' ''[1,9,3]'' ''v1'' ''v2'' = Inr r \<and>
        Summary r = ''Array: 1 of 3 items changed'')\<close>
proof -
  have h1: \<open>Unmarshal exampleLibs ''[1,2,3]'' = Inr (JArray [JNumber 1, JNumber 2, JNumber 3])\<close>
    and h2: \<open>Unmarshal exampleLibs ''[1,9,3]'' = Inr (JArray [JNumber 1, JNumber 9, JNumber 3])\<close>
    and h3: \<open>JsondiffCompare exampleLibs (JArray [JNumber 1, JNumber 2, JNumber 3])
              (JArray [JNumber 1, JNumber 9, JNumber 3]) = Inr ()\<close>
    by (simp_all add: exampleLibs_def exampleTexts_def)
  from full_compare_of_arrays[OF h1 h2 h3, of "''v1''" "''v2''"]
  obtain r where r: \<open>Compare exampleLibs ''[1,2,3]'' ''[1,9,3]'' ''v1'' ''v2'' = Inr r\<close>
    by blast
  have e: \<open>Compare exampleLibs ''[1,2,3]'' ''[1,9,3]'' ''v1'' ''v2'' =
      Inr \<lparr>TextDiff = ''@@'', JsonPatch = ''[]'',
           Summary = ''Array: 1 of 3 items changed'', IsJSON = True\<rparr>\<close>
    by (simp add: Compare_def CompareWithOptions_def isValidJSON_def compareAsJSON_def
        exampleLibs_def exampleTexts_def summarizeDifferences_def summarizeArrayDifferences_def
        countChanged.simps deepEqual_def itoa.simps)
  from r e have "Summary r = ''Array: 1 of 3 items changed''" by auto
  with r h1 h2 h3 show ?thesis by blast
qed

text \<open>
  The claim as stated fails when no position differs: comparing \<open>[1,2,3]\<close> with itself
  gives \<open>No top-level changes\<close>, not \<open>Array: 0 of 3 items changed\<close>.
\<close>

theorem full_compare_of_equal_arrays_counterexample:
  \<open>Unmarshal exampleLibs ''[1,2,3]'' = Inr (JArray [JNumber 1, JNumber 2, JNumber 3]) \<and>
   countChanged exampleLibs [JNumber 1, JNumber 2, JNumber 3]
     [JNumber 1, JNumber 2, JNumber 3] 0 0 = 0 \<and>
   Compare exampleLibs ''[1,2,3]'' ''[1,2,3]'' ''v1'' ''v2'' =
     Inr \<lparr>TextDiff = ''@@'', JsonPatch = ''[]'',
          Summary = ''No top-level changes'', IsJSON = True\<rparr> \<and>
   ''No top-level changes'' \<noteq> ''Array: 0 of 3 items changed''\<close>
  by (simp add: Compare_def CompareWithOptions_def isValidJSON_def compareAsJSON_def
        exampleLibs_def exampleTexts_def summarizeDifferences_def summarizeArrayDifferences_def
        countChanged.simps deepEqual_def itoa.simps)

subsection \<open>The key paths that \<open>collectAllKeys\<close> collects\<close>

lemma set_fold_insert: "set (fold List.insert xs acc) = set xs \<union> set acc"
  by (induction xs arbitrary: acc) auto

lemma set_fold_keys:
  "set (fold (\<lambda>(k, child) keys. fold List.insert (g k child) (List.insert (h k) keys)) val acc) =
     set acc \<union> (\<Union>(k, child) \<in> set val. insert (h k) (set (g k child)))"
  by (induction val arbitrary: acc) (auto simp: set_fold_insert)

lemma set_collectAllKeys: "set (collectAllKeys v p) = keyPaths v p"
proof (induction v p rule: collectAllKeys.induct)
  case (1 val prefix)
  have "set (collectAllKeys (JObject val) prefix) =
      (\<Union>(k, child) \<in> set val.
        insert (if prefix \<noteq> [] then prefix @ ''.'' @ k else k)
          (set (collectAllKeys child (if prefix \<noteq> [] then prefix @ ''.'' @ k else k))))"
    unfolding collectAllKeys.simps Let_def set_fold_keys by simp
  also have "\<dots> = keyPaths (JObject val) prefix"
    using 1 by (auto simp: Let_def)
  finally show ?case .
qed (simp_all add: set_fold_insert)

text \<open>The skeleton of a value has the key paths of the value.\<close>

lemma keyPaths_extractKeys: "keyPaths (extractKeys v) p = keyPaths v p"
proof (induction v arbitrary: p rule: extractKeys.induct)
  case (1 val)
  have ih: "keyPaths (extractKeys (snd x)) q = keyPaths (snd x) q" if "x \<in> set val" for x q
    using 1[of x "fst x" "snd x" q] that by simp
  have "keyPaths (extractKeys (JObject val)) p =
      (\<Union>x \<in> set val.
        insert (if p \<noteq> [] then p @ ''.'' @ fst x else fst x)
          (keyPaths (extractKeys (snd x)) (if p \<noteq> [] then p @ ''.'' @ fst x else fst x)))"
    by (simp add: case_prod_beta cong: if_cong)
  also have "\<dots> =
      (\<Union>x \<in> set val.
        insert (if p \<noteq> [] then p @ ''.'' @ fst x else fst x)
          (keyPaths (snd x) (if p \<noteq> [] then p @ ''.'' @ fst x else fst x)))"
    using ih by simp
  also have "\<dots> = keyPaths (JObject val) p"
    by (simp add: case_prod_beta)
  finally show ?case .
qed simp_all

lemma set_collectAllKeys_skeleton: "set (collectAllKeys (extractKeys v) []) = keyPaths v []"
  by (simp only: set_collectAllKeys keyPaths_extractKeys)

text \<open>\<open>strings.Join\<close> of a slice that is not empty: every element but the last is followed by
  the separator.\<close>

lemma Join_concat:
  "xs \<noteq> [] \<Longrightarrow> Join xs sep = concat (map (\<lambda>m. m @ sep) (butlast xs)) @ last xs"
  by (induction xs sep rule: Join.induct) simp_all

subsection \<open>The summaries in terms of key paths and of \<open>json.Marshal\<close>\<close>

lemma sort_eq_Nil_iff: "sort xs = [] \<longleftrightarrow> xs = []"
  by (metis length_0_conv length_sort)

lemma keyRemoved_literal:
  "keyRemoved = (\<lambda>p. ''Key '' @ [CHR 0x27] @ p @ [CHR 0x27] @ '' removed'')"
  by (simp add: fun_eq_iff keyRemoved_def apostrophe_def)

lemma keyAdded_literal:
  "keyAdded = (\<lambda>p. ''Key '' @ [CHR 0x27] @ p @ [CHR 0x27] @ '' added'')"
  by (simp add: fun_eq_iff keyAdded_def apostrophe_def)

lemma fieldRemoved_literal:
  "fieldRemoved = (\<lambda>k. ''Field '' @ [CHR 0x27] @ k @ [CHR 0x27] @ '' removed'')"
  by (simp add: fun_eq_iff fieldRemoved_def apostrophe_def)

lemma fieldChanged_literal:
  "fieldChanged = (\<lambda>k. ''Field '' @ [CHR 0x27] @ k @ [CHR 0x27] @ '' changed'')"
  by (simp add: fun_eq_iff fieldChanged_def apostrophe_def)

lemma fieldAdded_literal:
  "fieldAdded = (\<lambda>k. ''Field '' @ [CHR 0x27] @ k @ [CHR 0x27] @ '' added'')"
  by (simp add: fun_eq_iff fieldAdded_def apostrophe_def)

lemma summarizeKeyDifferences_keyPaths:
  "summarizeKeyDifferences (extractKeys p1) (extractKeys p2) =
     (let K1 = keyPaths p1 []; K2 = keyPaths p2 [];
          msgs = sort (map (\<lambda>p. ''Key '' @ [CHR 0x27] @ p @ [CHR 0x27] @ '' removed'')
                         (sorted_list_of_set (K1 - K2)) @
                       map (\<lambda>p. ''Key '' @ [CHR 0x27] @ p @ [CHR 0x27] @ '' added'')
                         (sorted_list_of_set (K2 - K1)))
      in if K1 = K2 then ''No structural changes (keys match)''
         else concat (map (\<lambda>m. m @ '', '') (butlast msgs)) @ last msgs)"
proof -
  let ?K1 = "keyPaths p1 []" and ?K2 = "keyPaths p2 []"
  let ?msgs = "sort (map keyRemoved (sorted_list_of_set (?K1 - ?K2)) @
                     map keyAdded (sorted_list_of_set (?K2 - ?K1)))"
  have f1: "finite ?K1" and f2: "finite ?K2"
    by (metis List.finite_set set_collectAllKeys)+
  have ne: "?msgs \<noteq> []" if "?K1 \<noteq> ?K2"
  proof
    assume "?msgs = []"
    then have "sorted_list_of_set (?K1 - ?K2) = []" and "sorted_list_of_set (?K2 - ?K1) = []"
      by (simp_all add: sort_eq_Nil_iff)
    with f1 f2 have "?K1 - ?K2 = {}" and "?K2 - ?K1 = {}"
      by (simp_all add: sorted_list_of_set_eq_Nil_iff)
    with that show False by blast
  qed
  have "summarizeKeyDifferences (extractKeys p1) (extractKeys p2) =
      (if ?K1 = ?K2 then ''No structural changes (keys match)'' else Join ?msgs '', '')"
    unfolding summarizeKeyDifferences_sets set_collectAllKeys_skeleton Let_def ..
  also have "\<dots> = (if ?K1 = ?K2 then ''No structural changes (keys match)''
                   else concat (map (\<lambda>m. m @ '', '') (butlast ?msgs)) @ last ?msgs)"
    using ne by (simp add: Join_concat)
  finally show ?thesis
    unfolding Let_def keyRemoved_literal keyAdded_literal .
qed

lemma not_deepEqual_iff:
  "\<not> deepEqual L v1 v2 \<longleftrightarrow> \<not> (\<exists>b. Marshal L v1 = Inr b \<and> Marshal L v2 = Inr b)"
  by (auto simp: deepEqual_def split: sum.splits)

lemma summarizeDifferences_objects_Marshal:
  assumes d1: "distinct (map fst m1)" and d2: "distinct (map fst m2)"
  shows "summarizeDifferences L (JObject m1) (JObject m2) =
     (let M1 = map_of m1; M2 = map_of m2;
          removed = sorted_list_of_set (dom M1 - dom M2);
          changed = sorted_list_of_set
                      {k \<in> dom M1 \<inter> dom M2.
                         \<not> (\<exists>b. Marshal L (the (M1 k)) = Inr b \<and> Marshal L (the (M2 k)) = Inr b)};
          added = sorted_list_of_set (dom M2 - dom M1);
          msgs = sort (map (\<lambda>k. ''Field '' @ [CHR 0x27] @ k @ [CHR 0x27] @ '' removed'') removed @
                       map (\<lambda>k. ''Field '' @ [CHR 0x27] @ k @ [CHR 0x27] @ '' changed'') changed @
                       map (\<lambda>k. ''Field '' @ [CHR 0x27] @ k @ [CHR 0x27] @ '' added'') added)
      in if msgs = [] then ''No top-level changes''
         else concat (map (\<lambda>m. m @ '', '') (butlast msgs)) @ last msgs)"
proof -
  let ?M1 = "map_of m1" and ?M2 = "map_of m2"
  let ?msgs = "sort (map fieldRemoved (sorted_list_of_set (dom ?M1 - dom ?M2)) @
                     map fieldChanged (sorted_list_of_set
                       {k \<in> dom ?M1 \<inter> dom ?M2. \<not> deepEqual L (the (?M1 k)) (the (?M2 k))}) @
                     map fieldAdded (sorted_list_of_set (dom ?M2 - dom ?M1)))"
  have "summarizeDifferences L (JObject m1) (JObject m2) =
      (if ?msgs = [] then ''No top-level changes'' else Join ?msgs '', '')"
    unfolding summarizeDifferences_objects[OF d1 d2] Let_def ..
  also have "\<dots> = (if ?msgs = [] then ''No top-level changes''
                   else concat (map (\<lambda>m. m @ '', '') (butlast ?msgs)) @ last ?msgs)"
    by (simp add: Join_concat)
  finally show ?thesis
    unfolding Let_def not_deepEqual_iff fieldRemoved_literal fieldChanged_literal
      fieldAdded_literal .
qed

text \<open>Between two objects, \<open>fmt.Sprintf("%v", v)\<close> is not consulted.\<close>

lemma deepEqual_SprintV: "deepEqual (L\<lparr>SprintV := f\<rparr>) = deepEqual L"
  by (simp add: fun_eq_iff deepEqual_def)

lemma summarizeDifferences_objects_SprintV:
  "summarizeDifferences (L\<lparr>SprintV := f\<rparr>) (JObject m1) (JObject m2) =
   summarizeDifferences L (JObject m1) (JObject m2)"
  unfolding summarizeDifferences_def deepEqual_SprintV by simp

lemma Compare_objects_SprintV:
  assumes "Unmarshal L original = Inr (JObject m1)"
    and "Unmarshal L modified = Inr (JObject m2)"
  shows "Compare (L\<lparr>SprintV := f\<rparr>) original modified name1 name2 =
         Compare L original modified name1 name2"
  using assms
  by (simp add: Compare_def CompareWithOptions_def isValidJSON_def compareAsJSON_def Let_def
      summarizeDifferences_objects_SprintV cong: sum.case_cong)

text \<open>
  Claim C6. In keys-only mode, for two inputs that decode as JSON, the summary is determined
  by the sets \<open>K1\<close> and \<open>K2\<close> of the reachable key paths of the two decoded values (\<open>keyPaths\<close>:
  a key under a prefix is \<open>prefix.key\<close>, an array contributes the segment \<open>[]\<close> and the paths
  of its first element only; the skeletons have the same paths as the values). The summary
  is \<open>Key 'p' removed\<close> for every path of \<open>K1\<close> only and \<open>Key 'p' added\<close> for every path of
  \<open>K2\<close> only, sorted bytewise, every message but the last followed by a comma and a space;
  and exactly \<open>No structural changes (keys match)\<close> when the two sets are equal. The
  hypotheses are that both inputs decode and that \<open>jsondiff.Compare\<close> returns a patch.

  The witness compares \<open>{"a":1,"b":2}\<close> with \<open>{"a":99,"b":2}\<close>, where only a scalar differs,
  and two documents that differ in top-level keys, in a key under an array and in the
  second element of an array.
\<close>

theorem keys_only_compare:
  assumes "Unmarshal L original = Inr p1"
    and "Unmarshal L modified = Inr p2"
    and "JsondiffCompare L (extractKeys p1) (extractKeys p2) = Inr patch"
  shows "\<exists>r. CompareWithOptions L original modified name1 name2 \<lparr>KeysOnly = True\<rparr> = Inr r \<and>
             Summary r =
               (let K1 = keyPaths p1 []; K2 = keyPaths p2 [];
                    msgs = sort (map (\<lambda>p. ''Key '' @ [CHR 0x27] @ p @ [CHR 0x27] @ '' removed'')
                                   (sorted_list_of_set (K1 - K2)) @
                                 map (\<lambda>p. ''Key '' @ [CHR 0x27] @ p @ [CHR 0x27] @ '' added'')
                                   (sorted_list_of_set (K2 - K1)))
                in if K1 = K2 then ''No structural changes (keys match)''
                   else concat (map (\<lambda>m. m @ '', '') (butlast msgs)) @ last msgs)"
  using compareAsJSON_keys_summary[OF assms, of name1 name2]
  unfolding summarizeKeyDifferences_keyPaths .

theorem keys_only_compare_witness:
  \<open>Unmarshal exampleLibs ''{"a":1,"b":2}'' = Inr (JObject [(''a'', JNumber 1), (''b'', JNumber 2)]) \<and>
   Unmarshal exampleLibs ''{"a":99,"b":2}'' = Inr (JObject [(''a'', JNumber 99), (''b'', JNumber 2)]) \<and>
   JsondiffCompare exampleLibs (extractKeys (JObject [(''a'', JNumber 1), (''b'', JNumber 2)]))
     (extractKeys (JObject [(''a'', JNumber 99), (''b'', JNumber 2)])) = Inr () \<and>
   (\<exists>r. CompareWithOptions exampleLibs ''{"a":1,"b":2}'' ''{"a":99,"b":2}'' ''v1'' ''v2''
          \<lparr>KeysOnly = True\<rparr> = Inr r \<and>
        Summary r = ''No structural changes (keys match)'') \<and>
   Unmarshal exampleLibs ''{"a":1,"b":{"c":[{"d":1}]},"z":0}'' =
     Inr (JObject [(''a'', JNumber 1),
                   (''b'', JObject [(''c'', JArray [JObject [(''d'', JNumber 1)]])]),
                   (''z'', JNumber 0)]) \<and>
   Unmarshal exampleLibs ''{"e":2,"b":{"c":[{"f":1},{"g":2}]},"a":"x"}'' =
     Inr (JObject [(''e'', JNumber 2),
                   (''b'', JObject [(''c'', JArray [JObject [(''f'', JNumber 1)],
                                                    JObject [(''g'', JNumber 2)]])]),
                   (''a'', JString ''x'')]) \<and>
   keyPaths (JObject [(''a'', JNumber (1::nat)),
                      (''b'', JObject [(''c'', JArray [JObject [(''d'', JNumber 1)]])]),
                      (''z'', JNumber 0)]) [] =
     {''a'', ''b'', ''b.c'', ''b.c[].d'', ''z''} \<and>
   keyPaths (JObject [(''e'', JNumber (2::nat)),
                      (''b'', JObject [(''c'', JArray [JObject [(''f'', JNumber 1)],
                                                       JObject [(''g'', JNumber 2)]])]),
                      (''a'', JString ''x'')]) [] =
     {''a'', ''b'', ''b.c'', ''b.c[].f'', ''e''} \<and>
   (\<exists>r. CompareWithOptions exampleLibs ''{"a":1,"b":{"c":[{"d":1}]},"z":0}''
          ''{"e":2,"b":{"c":[{"f":1},{"g":2}]},"a":"x"}'' ''v1'' ''v2''
          \<lparr>KeysOnly = True\<rparr> = Inr r \<and>
        Summary r =
          ''Key 'b.c[].d' removed, Key 'b.c[].f' added, Key 'e' added, Key 'z' removed'')\<close>
proof -
  have h1: \<open>Unmarshal exampleLibs ''{"a":1,"b":2}'' =
              Inr (JObject [(''a'', JNumber 1), (''b'', JNumber 2)])\<close>
    and h2: \<open>Unmarshal exampleLibs ''{"a":99,"b":2}'' =
              Inr (JObject [(''a'', JNumber 99), (''b'', JNumber 2)])\<close>
    and h3: \<open>JsondiffCompare exampleLibs
               (extractKeys (JObject [(''a'', JNumber 1), (''b'', JNumber 2)]))
               (extractKeys (JObject [(''a'', JNumber 99), (''b'', JNumber 2)])) = Inr ()\<close>
    and g1: \<open>Unmarshal exampleLibs ''{"a":1,"b":{"c":[{"d":1}]},"z":0}'' =
     Inr (JObject [(''a'', JNumber 1),
                   (''b'', JObject [(''c'', JArray [JObject [(''d'', JNumber 1)]])]),
                   (''z'', JNumber 0)])\<close>
    and g2: \<open>Unmarshal exampleLibs ''{"e":2,"b":{"c":[{"f":1},{"g":2}]},"a":"x"}'' =
     Inr (JObject [(''e'', JNumber 2),
                   (''b'', JObject [(''c'', JArray [JObject [(''f'', JNumber 1)],
                                                    JObject [(''g'', JNumber 2)]])]),
                   (''a'', JString ''x'')])\<close>
    and g3: \<open>JsondiffCompare exampleLibs
       (extractKeys (JObject [(''a'', JNumber 1),
                   (''b'', JObject [(''c'', JArray [JObject [(''d'', JNumber 1)]])]),
                   (''z'', JNumber 0)]))
       (extractKeys (JObject [(''e'', JNumber 2),
                   (''b'', JObject [(''c'', JArray [JObject [(''f'', JNumber 1)],
                                                    JObject [(''g'', JNumber 2)]])]),
                   (''a'', JString ''x'')])) = Inr ()\<close>
    by (simp_all add: exampleLibs_def exampleTexts_def)
  have k1: \<open>keyPaths (JObject [(''a'', JNumber (1::nat)),
                      (''b'', JObject [(''c'', JArray [JObject [(''d'', JNumber 1)]])]),
                      (''z'', JNumber 0)]) [] =
     {''a'', ''b'', ''b.c'', ''b.c[].d'', ''z''}\<close>
    and k2: \<open>keyPaths (JObject [(''e'', JNumber (2::nat)),
                      (''b'', JObject [(''c'', JArray [JObject [(''f'', JNumber 1)],
                                                       JObject [(''g'', JNumber 2)]])]),
                      (''a'', JString ''x'')]) [] =
     {''a'', ''b'', ''b.c'', ''b.c[].f'', ''e''}\<close>
    by auto
  from keys_only_compare[OF h1 h2 h3, of "''v1''" "''v2''"]
  obtain r where r: \<open>CompareWithOptions exampleLibs ''{"a":1,"b":2}'' ''{"a":99,"b":2}''
      ''v1'' ''v2'' \<lparr>KeysOnly = True\<rparr> = Inr r\<close>
    by blast
  have e: \<open>CompareWithOptions exampleLibs ''{"a":1,"b":2}'' ''{"a":99,"b":2}'' ''v1'' ''v2''
       \<lparr>KeysOnly = True\<rparr> =
      Inr \<lparr>TextDiff = ''@@'', JsonPatch = ''[]'',
           Summary = ''No structural changes (keys match)'', IsJSON = True\<rparr>\<close>
    by (simp add: CompareWithOptions_def isValidJSON_def compareAsJSON_def
        exampleLibs_def exampleTexts_def summarizeKeyDifferences_def)
  from r e have c1: "Summary r = ''No structural changes (keys match)''" by auto
  from keys_only_compare[OF g1 g2 g3, of "''v1''" "''v2''"]
  obtain s where s: \<open>CompareWithOptions exampleLibs ''{"a":1,"b":{"c":[{"d":1}]},"z":0}''
          ''{"e":2,"b":{"c":[{"f":1},{"g":2}]},"a":"x"}'' ''v1'' ''v2''
          \<lparr>KeysOnly = True\<rparr> = Inr s\<close>
    by blast
  have e': \<open>CompareWithOptions exampleLibs ''{"a":1,"b":{"c":[{"d":1}]},"z":0}''
          ''{"e":2,"b":{"c":[{"f":1},{"g":2}]},"a":"x"}'' ''v1'' ''v2''
          \<lparr>KeysOnly = True\<rparr> =
      Inr \<lparr>TextDiff = ''@@'', JsonPatch = ''[]'',
           Summary =
             ''Key 'b.c[].d' removed, Key 'b.c[].f' added, Key 'e' added, Key 'z' removed'',
           IsJSON = True\<rparr>\<close>
    by (simp add: CompareWithOptions_def isValidJSON_def compareAsJSON_def
        exampleLibs_def exampleTexts_def summarizeKeyDifferences_def keyRemoved_def
        keyAdded_def apostrophe_def)
  from s e' have c2: \<open>Summary s =
      ''Key 'b.c[].d' removed, Key 'b.c[].f' added, Key 'e' added, Key 'z' removed''\<close>
    by auto
  from r c1 s c2 h1 h2 h3 g1 g2 k1 k2 show ?thesis by blast
qed

text \<open>
  Claim C7. In full mode, when both inputs decode to objects, the summary lists
  \<open>Field 'k' removed\<close> for the keys of the left object only, \<open>Field 'k' added\<close> for the keys
  of the right object only, and \<open>Field 'k' changed\<close> for exactly the keys of both whose two
  values do not re-serialize to the same text: \<open>json.Marshal\<close> of the one and of the other
  do not both succeed with equal bytes. The messages are sorted bytewise and every message
  but the last is followed by a comma and a space; with no such key the summary is exactly
  \<open>No top-level changes\<close>. String coercion plays no role: the result is the same whatever
  \<open>fmt.Sprintf("%v", v)\<close> returns. The hypotheses are that both inputs decode to objects (a
  Go map holds every key once) and that \<open>jsondiff.Compare\<close> returns a patch.

  The witness compares \<open>{"a":1}\<close> with \<open>{"a":1,"b":2}\<close>, and \<open>{"a":"1","b":2,"c":3}\<close> with
  \<open>{"d":4,"c":3,"a":1}\<close>, where the string \<open>"1"\<close> and the number \<open>1\<close> have the same text under
  \<open>%v\<close> and the field counts as changed.
\<close>

theorem full_compare_of_objects:
  assumes "Unmarshal L original = Inr (JObject m1)"
    and "Unmarshal L modified = Inr (JObject m2)"
    and "distinct (map fst m1)" and "distinct (map fst m2)"
    and "JsondiffCompare L (JObject m1) (JObject m2) = Inr patch"
  shows "(\<exists>r. Compare L original modified name1 name2 = Inr r \<and>
              Summary r =
                (let M1 = map_of m1; M2 = map_of m2;
                     removed = sorted_list_of_set (dom M1 - dom M2);
                     changed = sorted_list_of_set
                       {k \<in> dom M1 \<inter> dom M2.
                          \<not> (\<exists>b. Marshal L (the (M1 k)) = Inr b \<and>
                                  Marshal L (the (M2 k)) = Inr b)};
                     added = sorted_list_of_set (dom M2 - dom M1);
                     msgs = sort
                       (map (\<lambda>k. ''Field '' @ [CHR 0x27] @ k @ [CHR 0x27] @ '' removed'') removed @
                        map (\<lambda>k. ''Field '' @ [CHR 0x27] @ k @ [CHR 0x27] @ '' changed'') changed @
                        map (\<lambda>k. ''Field '' @ [CHR 0x27] @ k @ [CHR 0x27] @ '' added'') added)
                 in if msgs = [] then ''No top-level changes''
                    else concat (map (\<lambda>m. m @ '', '') (butlast msgs)) @ last msgs)) \<and>
         (\<forall>f. Compare (L\<lparr>SprintV := f\<rparr>) original modified name1 name2 =
              Compare L original modified name1 name2)"
proof (intro conjI allI)
  show "\<exists>r. Compare L original modified name1 name2 = Inr r \<and>
              Summary r =
                (let M1 = map_of m1; M2 = map_of m2;
                     removed = sorted_list_of_set (dom M1 - dom M2);
                     changed = sorted_list_of_set
                       {k \<in> dom M1 \<inter> dom M2.
                          \<not> (\<exists>b. Marshal L (the (M1 k)) = Inr b \<and>
                                  Marshal L (the (M2 k)) = Inr b)};
                     added = sorted_list_of_set (dom M2 - dom M1);
                     msgs = sort
                       (map (\<lambda>k. ''Field '' @ [CHR 0x27] @ k @ [CHR 0x27] @ '' removed'') removed @
                        map (\<lambda>k. ''Field '' @ [CHR 0x27] @ k @ [CHR 0x27] @ '' changed'') changed @
                        map (\<lambda>k. ''Field '' @ [CHR 0x27] @ k @ [CHR 0x27] @ '' added'') added)
                 in if msgs = [] then ''No top-level changes''
                    else concat (map (\<lambda>m. m @ '', '') (butlast msgs)) @ last msgs)"
    using compareAsJSON_full_summary[OF assms(1,2,5), of name1 name2]
    unfolding summarizeDifferences_objects_Marshal[OF assms(3,4)] .
next
  fix f
  show "Compare (L\<lparr>SprintV := f\<rparr>) original modified name1 name2 =
        Compare L original modified name1 name2"
    by (rule Compare_objects_SprintV[OF assms(1,2)])
qed

theorem full_compare_of_objects_witness:
  \<open>Unmarshal exampleLibs ''{"a":1}'' = Inr (JObject [(''a'', JNumber 1)]) \<and>
   Unmarshal exampleLibs ''{"a":1,"b":2}'' = Inr (JObject [(''a'', JNumber 1), (''b'', JNumber 2)]) \<and>
   distinct (map fst [(''a'', JNumber (1::nat))]) \<and>
   distinct (map fst [(''a'', JNumber (1::nat)), (''b'', JNumber 2)]) \<and>
   JsondiffCompare exampleLibs (JObject [(''a'', JNumber 1)])
     (JObject [(''a'', JNumber 1), (''b'', JNumber 2)]) = Inr () \<and>
   (\<exists>r. Compare exampleLibs ''{"a":1}'' ''{"a":1,"b":2}'' ''v1'' ''v2'' = Inr r \<and>
        Summary r = ''Field 'b' added'') \<and>
   Unmarshal exampleLibs ''{"a":"1","b":2,"c":3}'' =
     Inr (JObject [(''a'', JString ''1''), (''b'', JNumber 2), (''c'', JNumber 3)]) \<and>
   Unmarshal exampleLibs ''{"d":4,"c":3,"a":1}'' =
     Inr (JObject [(''d'', JNumber 4), (''c'', JNumber 3), (''a'', JNumber 1)]) \<and>
   distinct (map fst [(''a'', JString ''1''), (''b'', JNumber (2::nat)), (''c'', JNumber 3)]) \<and>
   distinct (map fst [(''d'', JNumber (4::nat)), (''c'', JNumber 3), (''a'', JNumber 1)]) \<and>
   JsondiffCompare exampleLibs
     (JObject [(''a'', JString ''1''), (''b'', JNumber 2), (''c'', JNumber 3)])
     (JObject [(''d'', JNumber 4), (''c'', JNumber 3), (''a'', JNumber 1)]) = Inr () \<and>
   SprintV exampleLibs (JString ''1'') = SprintV exampleLibs (JNumber 1) \<and>
   Marshal exampleLibs (JString ''1'') = Inr ''"1"'' \<and>
   Marshal exampleLibs (JNumber 1) = Inr ''1'' \<and>
   (\<exists>r. Compare exampleLibs ''{"a":"1","b":2,"c":3}'' ''{"d":4,"c":3,"a":1}'' ''v1'' ''v2'' = Inr r \<and>
        Summary r = ''Field 'a' changed, Field 'b' removed, Field 'd' added'')\<close>
proof -
  have h1: \<open>Unmarshal exampleLibs ''{"a":1}'' = Inr (JObject [(''a'', JNumber 1)])\<close>
    and h2: \<open>Unmarshal exampleLibs ''{"a":1,"b":2}'' =
              Inr (JObject [(''a'', JNumber 1), (''b'', JNumber 2)])\<close>
    and h3: \<open>JsondiffCompare exampleLibs (JObject [(''a'', JNumber 1)])
              (JObject [(''a'', JNumber 1), (''b'', JNumber 2)]) = Inr ()\<close>
    and g1: \<open>Unmarshal exampleLibs ''{"a":"1","b":2,"c":3}'' =
              Inr (JObject [(''a'', JString ''1''), (''b'', JNumber 2), (''c'', JNumber 3)])\<close>
    and g2: \<open>Unmarshal exampleLibs ''{"d":4,"c":3,"a":1}'' =
              Inr (JObject [(''d'', JNumber 4), (''c'', JNumber 3), (''a'', JNumber 1)])\<close>
    and g3: \<open>JsondiffCompare exampleLibs
              (JObject [(''a'', JString ''1''), (''b'', JNumber 2), (''c'', JNumber 3)])
              (JObject [(''d'', JNumber 4), (''c'', JNumber 3), (''a'', JNumber 1)]) = Inr ()\<close>
    by (simp_all add: exampleLibs_def exampleTexts_def)
  have d1: "distinct (map fst [(''a'', JNumber (1::nat))])"
    and d2: "distinct (map fst [(''a'', JNumber (1::nat)), (''b'', JNumber 2)])"
    and d3: "distinct (map fst [(''a'', JString ''1''), (''b'', JNumber (2::nat)), (''c'', JNumber 3)])"
    and d4: "distinct (map fst [(''d'', JNumber (4::nat)), (''c'', JNumber 3), (''a'', JNumber 1)])"
    by simp_all
  have m: \<open>SprintV exampleLibs (JString ''1'') = SprintV exampleLibs (JNumber 1)\<close>
    \<open>Marshal exampleLibs (JString ''1'') = Inr ''"1"''\<close>
    \<open>Marshal exampleLibs (JNumber 1) = Inr ''1''\<close>
    by (simp_all add: exampleLibs_def itoa.simps dquote_def)
  from full_compare_of_objects[OF h1 h2 d1 d2 h3, of "''v1''" "''v2''"]
  obtain r where r: \<open>Compare exampleLibs ''{"a":1}'' ''{"a":1,"b":2}'' ''v1'' ''v2'' = Inr r\<close>
    by blast
  have e: \<open>Compare exampleLibs ''{"a":1}'' ''{"a":1,"b":2}'' ''v1'' ''v2'' =
      Inr \<lparr>TextDiff = ''@@'', JsonPatch = ''[]'',
           Summary = ''Field 'b' added'', IsJSON = True\<rparr>\<close>
    by (simp add: Compare_def CompareWithOptions_def isValidJSON_def compareAsJSON_def
        exampleLibs_def exampleTexts_def summarizeDifferences_def deepEqual_def itoa.simps
        fieldAdded_def apostrophe_def)
  from r e have c1: \<open>Summary r = ''Field 'b' added''\<close> by auto
  from full_compare_of_objects[OF g1 g2 d3 d4 g3, of "''v1''" "''v2''"]
  obtain s where s: \<open>Compare exampleLibs ''{"a":"1","b":2,"c":3}'' ''{"d":4,"c":3,"a":1}''
      ''v1'' ''v2'' = Inr s\<close>
    by blast
  have e': \<open>Compare exampleLibs ''{"a":"1","b":2,"c":3}'' ''{"d":4,"c":3,"a":1}'' ''v1'' ''v2'' =
      Inr \<lparr>TextDiff = ''@@'', JsonPatch = ''[]'',
           Summary = ''Field 'a' changed, Field 'b' removed, Field 'd' added'',
           IsJSON = True\<rparr>\<close>
    by (simp add: Compare_def CompareWithOptions_def isValidJSON_def compareAsJSON_def
        exampleLibs_def exampleTexts_def summarizeDifferences_def deepEqual_def itoa.simps
        fieldAdded_def fieldRemoved_def fieldChanged_def apostrophe_def dquote_def)
  from s e' have c2: \<open>Summary s = ''Field 'a' changed, Field 'b' removed, Field 'd' added''\<close>
    by auto
  from r c1 s c2 h1 h2 h3 g1 g2 g3 d1 d2 d3 d4 m show ?thesis by blast
qed

section \<open>Properties of the engine\<close>

subsection \<open>Tasks\<close>

lemma goTask_version [simp]: "version (goTask W t i v url cmd) = v"
  by (simp add: goTask_def Let_def split: option.splits prod.splits sum.splits)

lemma goTask_Version [simp]: "Version (execInfo (goTask W t i v url cmd)) = v"
  by (simp add: goTask_def Let_def split: option.splits prod.splits sum.splits)

lemma goTask_File [simp]: "File (execInfo (goTask W t i v url cmd)) = filePath (goTask W t i v url cmd)"
  by (simp add: goTask_def Let_def split: option.splits prod.splits sum.splits)

lemma map_filter_eq_map_filter:
  "List.map_filter (\<lambda>x. case g x of None \<Rightarrow> None | Some y \<Rightarrow> Some (h x y)) xs =
   map (\<lambda>x. h x (the (g x))) (filter (\<lambda>x. g x \<noteq> None) xs)"
  by (induction xs) (auto simp: List.map_filter_simps split: option.splits)

lemma launched_eq:
  "launched W cfg vs t i tc =
     map (taskOf W cfg t i tc) (filter (\<lambda>v. tcCommands tc v \<noteq> None) vs)"
  unfolding launched_def Let_def taskOf_def baseURLOf_def
  by (rule map_filter_eq_map_filter)

lemma taskOf_version [simp]: "version (taskOf W cfg t i tc v) = v"
  by (simp add: taskOf_def)

lemma taskOf_Version [simp]: "Version (execInfo (taskOf W cfg t i tc v)) = v"
  by (simp add: taskOf_def)

lemma taskOf_File [simp]:
  "File (execInfo (taskOf W cfg t i tc v)) = filePath (taskOf W cfg t i tc v)"
  by (simp add: taskOf_def)

lemma map_version_launched:
  "map version (launched W cfg vs t i tc) = filter (\<lambda>v. tcCommands tc v \<noteq> None) vs"
  by (simp add: launched_eq comp_def)

lemma mset_received: "mset (received W cfg vs t i tc) = mset (launched W cfg vs t i tc)"
  by (simp add: received_def)

subsection \<open>Sorting results with distinct keys\<close>

lemma filter_eq_key_distinct:
  "distinct (map f xs) \<Longrightarrow> k \<in> set xs \<Longrightarrow> filter (\<lambda>x. f k = f x) xs = [k]"
proof (induction xs)
  case Nil
  then show ?case by simp
next
  case (Cons a xs)
  show ?case
  proof (cases "k = a")
    case True
    have "filter (\<lambda>x. f a = f x) xs = []"
      using Cons.prems(1) by (auto simp: filter_empty_conv)
    then show ?thesis using True by simp
  next
    case False
    then have k: "k \<in> set xs" using Cons.prems(2) by simp
    then have "f k \<noteq> f a" using Cons.prems(1) by (force simp: image_iff)
    then show ?thesis using Cons.IH k Cons.prems(1) by simp
  qed
qed

lemma sort_key_unique:
  assumes m: "mset ys = mset xs" and d: "distinct (map f xs)" and s: "sorted (map f xs)"
  shows "sort_key f ys = xs"
proof (rule properties_for_sort_key)
  show "mset xs = mset ys" using m by simp
  show "sorted (map f xs)" by (rule s)
  have dy: "distinct (map f ys)"
    using d m by (metis distinct_map mset_eq_setD mset_map mset_eq_imp_distinct_iff)
  show "\<And>k. k \<in> set xs \<Longrightarrow> filter (\<lambda>x. f k = f x) xs = filter (\<lambda>x. f k = f x) ys"
  proof -
    fix k assume k: "k \<in> set xs"
    then have k': "k \<in> set ys" using m by (metis mset_eq_setD)
    show "filter (\<lambda>x. f k = f x) xs = filter (\<lambda>x. f k = f x) ys"
      by (simp add: filter_eq_key_distinct[OF d k] filter_eq_key_distinct[OF dy k'])
  qed
qed

subsection \<open>The map from version to path\<close>

lemma fold_collect:
  assumes "distinct (map version rs)" and "\<And>r. r \<in> set rs \<Longrightarrow> m (version r) = None"
  shows "(fold (\<lambda>result results.
             if filePath result \<noteq> [] then results(version result \<mapsto> filePath result)
             else results) rs m v = Some p)
         = (m v = Some p \<or> (\<exists>r \<in> set rs. version r = v \<and> filePath r = p \<and> p \<noteq> []))"
  using assms
proof (induction rs arbitrary: m)
  case Nil
  show ?case by simp
next
  case (Cons a rs)
  let ?m' = "if filePath a \<noteq> [] then m(version a \<mapsto> filePath a) else m"
  have d: "distinct (map version rs)" using Cons.prems(1) by simp
  have na: "\<And>r. r \<in> set rs \<Longrightarrow> version r \<noteq> version a"
    using Cons.prems(1) by (force simp: image_iff)
  have n: "\<And>r. r \<in> set rs \<Longrightarrow> ?m' (version r) = None"
    using Cons.prems(2) na by simp
  have ma: "m (version a) = None" using Cons.prems(2) by simp
  have "(fold (\<lambda>result results.
             if filePath result \<noteq> [] then results(version result \<mapsto> filePath result)
             else results) rs ?m' v = Some p)
        = (?m' v = Some p \<or> (\<exists>r \<in> set rs. version r = v \<and> filePath r = p \<and> p \<noteq> []))"
    by (rule Cons.IH[of ?m', OF d n])
  moreover have "(?m' v = Some p) = (m v = Some p \<or> (version a = v \<and> filePath a = p \<and> p \<noteq> []))"
    using ma by auto
  ultimately show ?case by auto
qed

lemma collectResults_Some:
  assumes "distinct (map version rs)"
  shows "(collectResults rs v = Some p) =
           (\<exists>r \<in> set rs. version r = v \<and> filePath r = p \<and> p \<noteq> [])"
  unfolding collectResults_def using fold_collect[OF assms, of Map.empty v p] by simp

lemma collectResults_perm:
  assumes "mset rs = mset rs'" and "distinct (map version rs)"
  shows "collectResults rs = collectResults rs'"
proof (rule ext)
  fix v
  have d': "distinct (map version rs')"
    using assms by (metis mset_map mset_eq_imp_distinct_iff)
  have s: "set rs = set rs'" using assms(1) by (rule mset_eq_setD)
  have "\<And>p. (collectResults rs v = Some p) = (collectResults rs' v = Some p)"
    by (simp add: collectResults_Some[OF assms(2)] collectResults_Some[OF d'] s)
  then show "collectResults rs v = collectResults rs' v"
    by (metis not_Some_eq)
qed

subsection \<open>One test case, and the loop over the test cases\<close>

lemma distinct_versions_launched:
  "distinct vs \<Longrightarrow> distinct (map version (launched W cfg vs t i tc))"
  by (simp add: map_version_launched)

lemma map_Version_launched:
  "map Version (map execInfo (launched W cfg vs t i tc)) =
     filter (\<lambda>v. tcCommands tc v \<noteq> None) vs"
  by (simp add: launched_eq comp_def)

lemma runTestCase_eq:
  assumes d: "distinct vs" and s: "sorted vs"
  shows "runTestCase W cfg vs t i tc =
     \<lparr>TestCaseName = Name tc, crCommands = tcCommands tc, Command = [],
      Diffs = compareVersions W (cfgKeysOnly cfg)
                (collectResults (launched W cfg vs t i tc)) vs,
      ExecInfo = map execInfo (launched W cfg vs t i tc)\<rparr>"
proof -
  let ?L = "launched W cfg vs t i tc" and ?R = "received W cfg vs t i tc"
  have m: "mset ?R = mset ?L" by (rule mset_received)
  have c: "collectResults ?R = collectResults ?L"
    by (rule collectResults_perm[symmetric, OF m[symmetric] distinct_versions_launched[OF d]])
  have e: "sort_key Version (map execInfo ?R) = map execInfo ?L"
  proof (rule sort_key_unique)
    show "mset (map execInfo ?R) = mset (map execInfo ?L)" using m by simp
    show "distinct (map Version (map execInfo ?L))"
      unfolding map_Version_launched using d by simp
    show "sorted (map Version (map execInfo ?L))"
      unfolding map_Version_launched using s by (rule sorted_wrt_filter)
  qed
  show ?thesis
    unfolding runTestCase_def Let_def c e ..
qed

lemma Execute_CompletionOrder [simp]:
  "Execute (W\<lparr>CompletionOrder := co\<rparr>) = Execute W"
  by (simp add: fun_eq_iff Execute_def cong: sum.case_cong option.case_cong if_cong)

lemma goTask_CompletionOrder [simp]:
  "goTask (W\<lparr>CompletionOrder := co\<rparr>) = goTask W"
  by (simp add: fun_eq_iff goTask_def
      cong: sum.case_cong option.case_cong prod.case_cong if_cong)

lemma compareFiles_CompletionOrder [simp]:
  "compareFiles (W\<lparr>CompletionOrder := co\<rparr>) = compareFiles W"
  by (simp add: fun_eq_iff compareFiles_def
      cong: sum.case_cong option.case_cong prod.case_cong if_cong)

lemma versionDiff_CompletionOrder [simp]:
  "versionDiff (W\<lparr>CompletionOrder := co\<rparr>) = versionDiff W"
  by (simp add: fun_eq_iff versionDiff_def Let_def
      cong: sum.case_cong option.case_cong prod.case_cong if_cong)

lemma compareVersions_CompletionOrder [simp]:
  "compareVersions (W\<lparr>CompletionOrder := co\<rparr>) = compareVersions W"
  by (simp add: fun_eq_iff compareVersions_def)

lemma launched_cong:
  assumes "map_of (Versions cfg') = map_of (Versions cfg)"
  shows "launched (W\<lparr>CompletionOrder := co\<rparr>) cfg' vs t i tc = launched W cfg vs t i tc"
  by (simp add: launched_eq taskOf_def baseURLOf_def assms)

lemma runTestCase_cong:
  assumes "distinct vs" and "sorted vs"
    and "map_of (Versions cfg') = map_of (Versions cfg)"
    and "cfgKeysOnly cfg' = cfgKeysOnly cfg"
  shows "runTestCase (W\<lparr>CompletionOrder := co\<rparr>) cfg' vs t i tc = runTestCase W cfg vs t i tc"
  unfolding runTestCase_eq[OF assms(1,2)] launched_cong[OF assms(3)] assms(4) by simp

lemma runLoop_cong:
  assumes "distinct vs" and "sorted vs"
    and "map_of (Versions cfg') = map_of (Versions cfg)"
    and "cfgKeysOnly cfg' = cfgKeysOnly cfg"
  shows "runLoop (W\<lparr>CompletionOrder := co\<rparr>) cfg' vs t i tcs rr = runLoop W cfg vs t i tcs rr"
  by (induction tcs arbitrary: i rr) (simp_all add: runTestCase_cong[OF assms] split: option.splits)

lemma ranCases_Nil [simp]: "ranCases W cfg vs t i [] = []"
  by (simp add: ranCases_def)

lemma ranCases_Cons [simp]:
  "ranCases W cfg vs t i (tc # tcs) = runTestCase W cfg vs t i tc # ranCases W cfg vs t (Suc i) tcs"
  by (simp add: ranCases_def)

lemma length_ranCases [simp]: "length (ranCases W cfg vs t i tcs) = length tcs"
  by (simp add: ranCases_def)

lemma nth_ranCases:
  "j < length tcs \<Longrightarrow> ranCases W cfg vs t i tcs ! j = runTestCase W cfg vs t (i + j) (tcs ! j)"
  by (simp add: ranCases_def nth_enumerate_eq)

lemma runLoop_completes:
  assumes "\<And>j. j < length tcs \<Longrightarrow> ctxErr W (i + j) = None"
    and "i + length tcs \<le> length (CommandResults rr)"
  shows "runLoop W cfg vs t i tcs rr =
     (rr\<lparr>CommandResults := take i (CommandResults rr) @ ranCases W cfg vs t i tcs @
                             drop (i + length tcs) (CommandResults rr)\<rparr>, None)"
  using assms
proof (induction tcs arbitrary: i rr)
  case Nil
  show ?case by simp
next
  case (Cons tc tcs)
  let ?cs = "CommandResults rr"
  let ?x = "runTestCase W cfg vs t i tc"
  let ?rr1 = "rr\<lparr>CommandResults := ?cs[i := ?x]\<rparr>"
  have i: "i < length ?cs" using Cons.prems(2) by simp
  have c0: "ctxErr W i = None" using Cons.prems(1)[of 0] by simp
  have c1: "\<And>j. j < length tcs \<Longrightarrow> ctxErr W (Suc i + j) = None"
    using Cons.prems(1)[of "Suc j" for j] by simp
  have l: "Suc i + length tcs \<le> length (CommandResults ?rr1)"
    using Cons.prems(2) by simp
  have ih: "runLoop W cfg vs t (Suc i) tcs ?rr1 =
     (?rr1\<lparr>CommandResults := take (Suc i) (CommandResults ?rr1) @ ranCases W cfg vs t (Suc i) tcs @
                             drop (Suc i + length tcs) (CommandResults ?rr1)\<rparr>, None)"
    by (rule Cons.IH[OF c1 l])
  have t: "take (Suc i) (?cs[i := ?x]) = take i ?cs @ [?x]"
    using i by (simp add: take_Suc_conv_app_nth)
  have dr: "drop (Suc i + length tcs) (?cs[i := ?x]) = drop (Suc i + length tcs) ?cs"
    by simp
  show ?case
    using c0 ih by (simp add: t dr)
qed

lemma runLoop_cancelled:
  assumes "k < length tcs"
    and "\<And>j. j < k \<Longrightarrow> ctxErr W (i + j) = None"
    and "ctxErr W (i + k) = Some e"
    and "i + length tcs \<le> length (CommandResults rr)"
  shows "runLoop W cfg vs t i tcs rr =
     (rr\<lparr>CommandResults := take i (CommandResults rr) @ ranCases W cfg vs t i (take k tcs) @
                             drop (i + k) (CommandResults rr),
          Errors := Errors rr @ [''operation cancelled: '' @ ctxErrorText e]\<rparr>, Some e)"
  using assms
proof (induction tcs arbitrary: i k rr)
  case Nil
  then show ?case by simp
next
  case (Cons tc tcs)
  let ?cs = "CommandResults rr"
  let ?x = "runTestCase W cfg vs t i tc"
  let ?rr1 = "rr\<lparr>CommandResults := ?cs[i := ?x]\<rparr>"
  have i: "i < length ?cs" using Cons.prems(4) by simp
  show ?case
  proof (cases k)
    case 0
    then show ?thesis using Cons.prems(3) by simp
  next
    case (Suc k')
    have c0: "ctxErr W i = None" using Cons.prems(2)[of 0] Suc by simp
    have k': "k' < length tcs" using Cons.prems(1) Suc by simp
    have c1: "\<And>j. j < k' \<Longrightarrow> ctxErr W (Suc i + j) = None"
      using Cons.prems(2)[of "Suc j" for j] Suc by simp
    have ce: "ctxErr W (Suc i + k') = Some e" using Cons.prems(3) Suc by simp
    have l: "Suc i + length tcs \<le> length (CommandResults ?rr1)"
      using Cons.prems(4) by simp
    have ih: "runLoop W cfg vs t (Suc i) tcs ?rr1 =
       (?rr1\<lparr>CommandResults := take (Suc i) (CommandResults ?rr1) @
                                 ranCases W cfg vs t (Suc i) (take k' tcs) @
                                 drop (Suc i + k') (CommandResults ?rr1),
              Errors := Errors ?rr1 @ [''operation cancelled: '' @ ctxErrorText e]\<rparr>, Some e)"
      by (rule Cons.IH[OF k' c1 ce l])
    have t: "take (Suc i) (?cs[i := ?x]) = take i ?cs @ [?x]"
      using i by (simp add: take_Suc_conv_app_nth)
    have dr: "drop (Suc i + k') (?cs[i := ?x]) = drop (Suc i + k') ?cs"
      by simp
    show ?thesis
      using c0 ih by (simp add: t dr Suc)
  qed
qed

lemma sorted_sortedVersions: "sorted (sortedVersions cfg)"
  by (simp add: sortedVersions_def)

lemma distinct_sortedVersions: "wf_Config cfg \<Longrightarrow> distinct (sortedVersions cfg)"
  by (simp add: sortedVersions_def wf_Config_def)

lemma RunWithContext_completes:
  assumes "\<And>j. j < length (GetTestCases cfg) \<Longrightarrow> ctxErr W j = None"
  shows "RunWithContext W cfg =
     (\<lparr>CommandResults = ranCases W cfg (sortedVersions cfg) (GetTimeout cfg) 0 (GetTestCases cfg),
       Errors = []\<rparr>, None)"
  unfolding RunWithContext_def Let_def sortedVersions_def
  by (subst runLoop_completes) (simp_all add: assms)

lemma RunWithContext_cancelled:
  assumes "k < length (GetTestCases cfg)"
    and "\<And>j. j < k \<Longrightarrow> ctxErr W j = None"
    and "ctxErr W k = Some e"
  shows "RunWithContext W cfg =
     (\<lparr>CommandResults =
         ranCases W cfg (sortedVersions cfg) (GetTimeout cfg) 0 (take k (GetTestCases cfg)) @
         replicate (length (GetTestCases cfg) - k) zeroCommandResult,
       Errors = [''operation cancelled: '' @ ctxErrorText e]\<rparr>, Some e)"
  unfolding RunWithContext_def Let_def sortedVersions_def
  by (subst runLoop_cancelled[where k = k and e = e]) (simp_all add: assms)

subsection \<open>The run\<close>

lemma first_cancel:
  assumes "\<exists>k < n. ctxErr W k \<noteq> None"
  shows "\<exists>k e. k < n \<and> ctxErr W k = Some e \<and> (\<forall>j<k. ctxErr W j = None)"
proof -
  from assms have "\<exists>k. k < n \<and> ctxErr W k \<noteq> None" by blast
  then obtain k where k: "k < n \<and> ctxErr W k \<noteq> None"
    and least: "\<forall>m<k. \<not> (m < n \<and> ctxErr W m \<noteq> None)"
    using exists_least_iff[of "\<lambda>k. k < n \<and> ctxErr W k \<noteq> None"] by blast
  from k obtain e where e: "ctxErr W k = Some e" by blast
  have "\<forall>j<k. ctxErr W j = None"
    using least k by (metis less_trans)
  with k e show ?thesis by blast
qed

lemma RunWithContext_nth:
  assumes i: "i < length (GetTestCases cfg)" and r: "\<And>j. j \<le> i \<Longrightarrow> ctxErr W j = None"
  shows "CommandResults (fst (RunWithContext W cfg)) ! i =
           runTestCase W cfg (sortedVersions cfg) (GetTimeout cfg) i (GetTestCases cfg ! i)"
proof (cases "\<exists>k < length (GetTestCases cfg). ctxErr W k \<noteq> None")
  case True
  from first_cancel[OF this]
  obtain k e where k: "k < length (GetTestCases cfg)" and e: "ctxErr W k = Some e"
    and l: "\<And>j. j < k \<Longrightarrow> ctxErr W j = None"
    by blast
  have ik: "i < k"
  proof (rule ccontr)
    assume "\<not> i < k"
    then have "k \<le> i" by simp
    from r[OF this] e show False by simp
  qed
  note eq = RunWithContext_cancelled[OF k l e]
  show ?thesis
    using ik k by (simp add: eq nth_append nth_ranCases)
next
  case False
  then have "\<And>j. j < length (GetTestCases cfg) \<Longrightarrow> ctxErr W j = None" by blast
  from RunWithContext_completes[OF this] i show ?thesis
    by (simp add: nth_ranCases)
qed

lemma versionDiff_labels [simp]:
  "VersionA (versionDiff W ko results a b) = a"
  "VersionB (versionDiff W ko results a b) = b"
  by (simp_all add: versionDiff_def Let_def split: option.splits sum.splits prod.splits)

lemma zip_tl_nth: "zip vs (tl vs) = map (\<lambda>i. (vs ! i, vs ! (i + 1))) [0 ..< length vs - 1]"
  by (rule nth_equalityI) (simp_all add: nth_tl)

lemma compareVersions_eq:
  "compareVersions W ko results vs =
     map (\<lambda>i. versionDiff W ko results (vs ! i) (vs ! (i + 1))) [0 ..< length vs - 1]"
  by (simp add: compareVersions_def)

lemma compareVersions_pairs:
  "map (\<lambda>d. (VersionA d, VersionB d)) (compareVersions W ko results vs) = zip vs (tl vs)"
  by (simp add: compareVersions_eq zip_tl_nth comp_def)

lemma fold_commands:
  "fold (\<lambda>(version, url) commands. commands(version \<mapsto> cmd)) vs m =
     (\<lambda>v. if v \<in> fst ` set vs then Some cmd else m v)"
  by (induction vs arbitrary: m) (auto simp: fun_eq_iff)

lemma GetTestCases_legacy:
  "TestCases c = [] \<Longrightarrow>
   GetTestCases c =
     map (\<lambda>(i, cmd). \<lparr>Name = ''Command '' @ itoa (i + 1),
                       tcCommands = (\<lambda>v. if v \<in> fst ` set (Versions c) then Some cmd else None)\<rparr>)
         (enumerate 0 (Commands c))"
  by (simp add: GetTestCases_def fold_commands)

lemma GetTestCases_Versions_perm:
  assumes "set vs' = set (Versions c)"
  shows "GetTestCases (c\<lparr>Versions := vs'\<rparr>) = GetTestCases c"
  by (simp add: GetTestCases_def fold_commands assms)

lemma GetTimeout_Versions [simp]: "GetTimeout (c\<lparr>Versions := vs'\<rparr>) = GetTimeout c"
  by (simp add: GetTimeout_def)

lemma RunWithContext_perm:
  assumes wf: "wf_Config cfg" and m: "mset vs' = mset (Versions cfg)"
  shows "RunWithContext (W\<lparr>CompletionOrder := co\<rparr>) (cfg\<lparr>Versions := vs'\<rparr>) = RunWithContext W cfg"
proof -
  have s: "set vs' = set (Versions cfg)" using m by (rule mset_eq_setD)
  have d: "distinct (map fst (Versions cfg))" using wf by (simp add: wf_Config_def)
  have d': "distinct (map fst vs')"
    using d m by (metis mset_map mset_eq_imp_distinct_iff)
  have mo: "map_of (Versions (cfg\<lparr>Versions := vs'\<rparr>)) = map_of (Versions cfg)"
    using map_of_inject_set[OF d' d] s by simp
  have so: "sort (map fst vs') = sort (map fst (Versions cfg))"
    by (rule sort_cong_mset) (simp add: m)
  have ds: "distinct (sort (map fst (Versions cfg)))" using d by simp
  have ko: "cfgKeysOnly (cfg\<lparr>Versions := vs'\<rparr>) = cfgKeysOnly cfg" by simp
  show ?thesis
    unfolding RunWithContext_def Let_def
    by (simp add: so GetTestCases_Versions_perm[OF s]
        runLoop_cong[OF ds sorted_sort mo ko])
qed

lemma ExecInfo_runTestCase:
  assumes "distinct vs" and "sorted vs"
  shows "ExecInfo (runTestCase W cfg vs t i tc) =
     map (\<lambda>v. execInfo (taskOf W cfg t i tc v)) (filter (\<lambda>v. tcCommands tc v \<noteq> None) vs)"
  by (simp add: runTestCase_eq[OF assms] launched_eq)

lemma Diffs_runTestCase:
  assumes "distinct vs" and "sorted vs"
  shows "Diffs (runTestCase W cfg vs t i tc) =
     compareVersions W (cfgKeysOnly cfg) (collectResults (launched W cfg vs t i tc)) vs"
  by (simp add: runTestCase_eq[OF assms])

lemmas example_defs = exampleWorld_def exampleConfig_def exampleProc_def exampleFiles_def
  exampleLibs_def exampleTexts_def

lemmas engine_defs = RunWithContext_def GetTestCases_def GetTimeout_def runTestCase_def
  received_def launched_def goTask_def Execute_def collectResults_def compareVersions_def
  versionDiff_def compareFiles_def zeroCommandResult_def DefaultTimeout_def Second_def
  List.map_filter_simps

lemmas compare_defs = Compare_def CompareWithOptions_def isValidJSON_def compareAsJSON_def
  compareAsText_def summarizeDifferences_def summarizeArrayDifferences_def
  summarizeKeyDifferences_def deepEqual_def fieldAdded_def fieldRemoved_def fieldChanged_def
  keyAdded_def keyRemoved_def

subsection \<open>The order of the versions, and the legacy form of a configuration\<close>

lemma RunWithContext_ExecInfo:
  assumes wf: "wf_Config cfg" and i: "i < length (GetTestCases cfg)"
    and r: "\<And>j. j \<le> i \<Longrightarrow> ctxErr W j = None"
  shows "ExecInfo (CommandResults (fst (RunWithContext W cfg)) ! i) =
     map (\<lambda>v. execInfo (goTask W (GetTimeout cfg) i v
                  (case map_of (Versions cfg) v of Some u \<Rightarrow> u | None \<Rightarrow> [])
                  (the (tcCommands (GetTestCases cfg ! i) v))))
         (filter (\<lambda>v. tcCommands (GetTestCases cfg ! i) v \<noteq> None)
            (sort (map fst (Versions cfg))))"
proof -
  have "ExecInfo (CommandResults (fst (RunWithContext W cfg)) ! i) =
      ExecInfo (runTestCase W cfg (sortedVersions cfg) (GetTimeout cfg) i (GetTestCases cfg ! i))"
    by (simp only: RunWithContext_nth[OF i r])
  also have "\<dots> = map (\<lambda>v. execInfo (taskOf W cfg (GetTimeout cfg) i (GetTestCases cfg ! i) v))
      (filter (\<lambda>v. tcCommands (GetTestCases cfg ! i) v \<noteq> None) (sortedVersions cfg))"
    by (rule ExecInfo_runTestCase[OF distinct_sortedVersions[OF wf] sorted_sortedVersions])
  finally show ?thesis
    by (simp add: taskOf_def baseURLOf_def sortedVersions_def)
qed

lemma RunWithContext_Diffs:
  assumes wf: "wf_Config cfg" and i: "i < length (GetTestCases cfg)"
    and r: "\<And>j. j \<le> i \<Longrightarrow> ctxErr W j = None"
  shows "Diffs (CommandResults (fst (RunWithContext W cfg)) ! i) =
     compareVersions W (cfgKeysOnly cfg)
       (collectResults (launched W cfg (sortedVersions cfg) (GetTimeout cfg) i
          (GetTestCases cfg ! i)))
       (sortedVersions cfg)"
  by (simp only: RunWithContext_nth[OF i r]
      Diffs_runTestCase[OF distinct_sortedVersions[OF wf] sorted_sortedVersions])

text \<open>
  Claim C2. The run sorts the configured version labels once, and every test case that the
  run reaches uses that list: the outcomes of the test case are listed in the order of the
  sorted labels (those with a command in the test case), and the diffs pair each label of
  the sorted list with the next one. Hence the result of the run is the same whatever the
  order in which the configuration lists the versions (\<open>vs'\<close> is a rearrangement of them) and
  whatever the order in which the tasks complete (\<open>co\<close>).
\<close>

theorem version_order_is_fixed_for_the_run:
  assumes wf: "wf_Config cfg" and m: "mset vs' = mset (Versions cfg)"
  shows "(\<forall>i < length (GetTestCases cfg).
            (\<forall>j \<le> i. ctxErr W j = None) \<longrightarrow>
            map Version (ExecInfo (CommandResults (fst (RunWithContext W cfg)) ! i)) =
              filter (\<lambda>v. tcCommands (GetTestCases cfg ! i) v \<noteq> None)
                (sort (map fst (Versions cfg))) \<and>
            map (\<lambda>d. (VersionA d, VersionB d))
                (Diffs (CommandResults (fst (RunWithContext W cfg)) ! i)) =
              zip (sort (map fst (Versions cfg))) (tl (sort (map fst (Versions cfg))))) \<and>
         RunWithContext (W\<lparr>CompletionOrder := co\<rparr>) (cfg\<lparr>Versions := vs'\<rparr>) =
           RunWithContext W cfg"
proof (intro conjI allI impI)
  fix i assume i: "i < length (GetTestCases cfg)" and "\<forall>j \<le> i. ctxErr W j = None"
  then have r: "\<And>j. j \<le> i \<Longrightarrow> ctxErr W j = None" by blast
  show "map Version (ExecInfo (CommandResults (fst (RunWithContext W cfg)) ! i)) =
           filter (\<lambda>v. tcCommands (GetTestCases cfg ! i) v \<noteq> None)
             (sort (map fst (Versions cfg)))"
    by (simp add: RunWithContext_ExecInfo[OF wf i r] comp_def)
  show "map (\<lambda>d. (VersionA d, VersionB d))
             (Diffs (CommandResults (fst (RunWithContext W cfg)) ! i)) =
           zip (sort (map fst (Versions cfg))) (tl (sort (map fst (Versions cfg))))"
    by (simp only: RunWithContext_Diffs[OF wf i r] compareVersions_pairs sortedVersions_def)
next
  show "RunWithContext (W\<lparr>CompletionOrder := co\<rparr>) (cfg\<lparr>Versions := vs'\<rparr>) =
           RunWithContext W cfg"
    by (rule RunWithContext_perm[OF wf m])
qed

theorem version_order_is_fixed_for_the_run_witness:
  "wf_Config exampleConfig \<and>
   mset [(''v1'', ''http://a''), (''v2'', ''http://b'')] = mset (Versions exampleConfig) \<and>
   length (GetTestCases exampleConfig) = 1 \<and>
   ctxErr exampleWorld 0 = None \<and>
   sort (map fst (Versions exampleConfig)) = [''v1'', ''v2''] \<and>
   map Version (ExecInfo (CommandResults (fst (RunWithContext exampleWorld exampleConfig)) ! 0)) =
     [''v1'', ''v2''] \<and>
   map (\<lambda>d. (VersionA d, VersionB d))
       (Diffs (CommandResults (fst (RunWithContext exampleWorld exampleConfig)) ! 0)) =
     [(''v1'', ''v2'')] \<and>
   RunWithContext (exampleWorld\<lparr>CompletionOrder := (\<lambda>i v. 0)\<rparr>)
       (exampleConfig\<lparr>Versions := [(''v1'', ''http://a''), (''v2'', ''http://b'')]\<rparr>) =
     RunWithContext exampleWorld exampleConfig"
proof -
  have wf: "wf_Config exampleConfig"
    by (simp add: wf_Config_def exampleConfig_def)
  have m: "mset [(''v1'', ''http://a''), (''v2'', ''http://b'')] = mset (Versions exampleConfig)"
    by (simp add: exampleConfig_def)
  have i: "length (GetTestCases exampleConfig) = 1"
    by (simp add: GetTestCases_def exampleConfig_def)
  have r: "ctxErr exampleWorld 0 = None"
    by (simp add: exampleWorld_def)
  have c: "tcCommands (GetTestCases exampleConfig ! 0) =
      (\<lambda>v. if v \<in> {''v1'', ''v2''} then Some ''curl {{BASE_URL}}'' else None)"
    by (auto simp: GetTestCases_legacy exampleConfig_def)
  have s: "sort (map fst (Versions exampleConfig)) = [''v1'', ''v2'']"
    by (simp add: exampleConfig_def)
  show ?thesis
    using version_order_is_fixed_for_the_run[OF wf m, of exampleWorld "\<lambda>i v. 0"] wf m i r
    by (simp add: c s)
qed

lemma runTestCase_TestCases [simp]:
  "runTestCase W (c\<lparr>TestCases := x\<rparr>) = runTestCase W c"
  by (simp add: fun_eq_iff runTestCase_def received_def launched_def)

lemma runLoop_TestCases [simp]:
  "runLoop W (c\<lparr>TestCases := x\<rparr>) vs t i tcs rr = runLoop W c vs t i tcs rr"
  by (induction tcs arbitrary: i rr) (simp_all split: option.splits)

lemma GetTestCases_idem: "GetTestCases (c\<lparr>TestCases := GetTestCases c\<rparr>) = GetTestCases c"
  by (simp add: GetTestCases_def)

text \<open>
  Claim C10. \<open>GetTestCases\<close> returns a non-empty list of test cases unchanged. With no
  test cases, it returns one test case per legacy command, in the order of the commands: the
  one at index \<open>i\<close> is named \<open>Command i+1\<close> and maps every configured version label, and
  no other, to the command at index \<open>i\<close>. Running the configuration is running the
  configuration whose test cases are those \<open>GetTestCases\<close> returns.
\<close>

theorem legacy_commands_become_test_cases:
  "(TestCases c \<noteq> [] \<longrightarrow> GetTestCases c = TestCases c) \<and>
   (TestCases c = [] \<longrightarrow>
      length (GetTestCases c) = length (Commands c) \<and>
      (\<forall>i < length (Commands c).
         Name (GetTestCases c ! i) = ''Command '' @ itoa (i + 1) \<and>
         (\<forall>v. tcCommands (GetTestCases c ! i) v =
                (if v \<in> fst ` set (Versions c) then Some (Commands c ! i) else None)))) \<and>
   RunWithContext W c = RunWithContext W (c\<lparr>TestCases := GetTestCases c\<rparr>)"
proof (intro conjI impI allI)
  assume "TestCases c \<noteq> []"
  then show "GetTestCases c = TestCases c" by (simp add: GetTestCases_def)
next
  assume e: "TestCases c = []"
  show "length (GetTestCases c) = length (Commands c)"
    by (simp add: GetTestCases_legacy[OF e])
  fix i assume i: "i < length (Commands c)"
  show "Name (GetTestCases c ! i) = ''Command '' @ itoa (i + 1)"
    using i by (simp add: GetTestCases_legacy[OF e] nth_enumerate_eq)
  fix v
  show "tcCommands (GetTestCases c ! i) v =
          (if v \<in> fst ` set (Versions c) then Some (Commands c ! i) else None)"
    using i by (simp add: GetTestCases_legacy[OF e] nth_enumerate_eq)
next
  show "RunWithContext W c = RunWithContext W (c\<lparr>TestCases := GetTestCases c\<rparr>)"
    by (simp add: RunWithContext_def GetTestCases_idem GetTimeout_def)
qed

theorem legacy_commands_become_test_cases_witness:
  "TestCases exampleConfig = [] \<and>
   length (GetTestCases exampleConfig) = 1 \<and>
   Name (GetTestCases exampleConfig ! 0) = ''Command 1'' \<and>
   tcCommands (GetTestCases exampleConfig ! 0) ''v1'' = Some ''curl {{BASE_URL}}'' \<and>
   tcCommands (GetTestCases exampleConfig ! 0) ''v2'' = Some ''curl {{BASE_URL}}'' \<and>
   tcCommands (GetTestCases exampleConfig ! 0) ''v3'' = None \<and>
   RunWithContext exampleWorld exampleConfig =
     RunWithContext exampleWorld (exampleConfig\<lparr>TestCases := GetTestCases exampleConfig\<rparr>)"
proof -
  have e: "TestCases exampleConfig = []" and l: "length (Commands exampleConfig) = 1"
    and c: "Commands exampleConfig ! 0 = ''curl {{BASE_URL}}''"
    and v: "fst ` set (Versions exampleConfig) = {''v1'', ''v2''}"
    by (auto simp: exampleConfig_def)
  from legacy_commands_become_test_cases[of exampleConfig exampleWorld] e l
  have n: "Name (GetTestCases exampleConfig ! 0) = ''Command '' @ itoa (0 + 1)"
    and t: "\<And>v. tcCommands (GetTestCases exampleConfig ! 0) v =
                (if v \<in> fst ` set (Versions exampleConfig) then Some (Commands exampleConfig ! 0)
                 else None)"
    and len: "length (GetTestCases exampleConfig) = length (Commands exampleConfig)"
    and run: "RunWithContext exampleWorld exampleConfig =
       RunWithContext exampleWorld (exampleConfig\<lparr>TestCases := GetTestCases exampleConfig\<rparr>)"
    by simp_all
  show ?thesis
    using e n len run by (simp add: t v c l itoa.simps)
qed

subsection \<open>Timeouts\<close>

lemma Execute_TimedOut:
  "exTimedOut (fst (Execute W tcIdx cmdRaw v url timeout)) =
     (\<exists>args. ShellwordsParse W (FinalCmd W cmdRaw url) = Inr args \<and> args \<noteq> [] \<and>
             DeadlineExceeded (RunProcess W tcIdx v args
                                 (if sint timeout \<le> 0 then DefaultTimeout else timeout)))"
  by (cases "ShellwordsParse W (FinalCmd W cmdRaw url)")
     (auto simp: Execute_def Let_def split: option.splits)

lemma Execute_TimedOut_err:
  "exTimedOut (fst (Execute W tcIdx cmdRaw v url timeout)) \<Longrightarrow>
     snd (Execute W tcIdx cmdRaw v url timeout) = Some ''context deadline exceeded''"
  by (cases "ShellwordsParse W (FinalCmd W cmdRaw url)")
     (auto simp: Execute_def Let_def split: option.splits if_splits)

lemma goTask_TimedOut:
  "TimedOut (execInfo (goTask W timeout tcIdx v url cmdRaw)) =
     (Panics W tcIdx v = None \<and> exTimedOut (fst (Execute W tcIdx cmdRaw v url timeout)))"
  by (cases "Execute W tcIdx cmdRaw v url timeout")
     (auto simp: goTask_def Let_def split: option.splits sum.splits)

lemma goTask_TimedOut_Error:
  assumes "TimedOut (execInfo (goTask W timeout tcIdx v url cmdRaw))"
  shows "Error (execInfo (goTask W timeout tcIdx v url cmdRaw)) =
           ''timeout after '' @ DurationString W timeout \<and>
         File (execInfo (goTask W timeout tcIdx v url cmdRaw)) = [] \<and>
         err (goTask W timeout tcIdx v url cmdRaw) = Some ''context deadline exceeded''"
proof -
  from assms have p: "Panics W tcIdx v = None"
    and t: "exTimedOut (fst (Execute W tcIdx cmdRaw v url timeout))"
    by (simp_all add: goTask_TimedOut)
  obtain res e where x: "Execute W tcIdx cmdRaw v url timeout = (res, e)"
    by (cases "Execute W tcIdx cmdRaw v url timeout")
  from Execute_TimedOut_err[OF t] x have e: "e = Some ''context deadline exceeded''" by simp
  from t x have r: "exTimedOut res" by simp
  show ?thesis
    by (simp add: goTask_def p x e r Let_def)
qed

text \<open>
  Claim C8. The outcome recorded for a task has \<open>TimedOut\<close> set exactly when the task did
  not panic and \<open>Execute\<close> found the deadline of its own timeout context exceeded after
  running the command (the command was parsed, was not empty, and the per-command timeout,
  or the default for a timeout that is not positive, ran out). Then the outcome's error
  text is \<open>timeout after\<close> followed by the timeout, it has no file, and the task's error is
  the context's. Whatever the tasks' outcomes, a run that is not cancelled returns no
  error, and every test case lists the outcome of every version that has a command in it:
  the outcome of that version's task.
\<close>

theorem timed_out_flag_marks_deadline_overrun:
  "TimedOut (execInfo (goTask W timeout tcIdx v url cmdRaw)) =
     (Panics W tcIdx v = None \<and>
      (\<exists>args. ShellwordsParse W (FinalCmd W cmdRaw url) = Inr args \<and> args \<noteq> [] \<and>
              DeadlineExceeded (RunProcess W tcIdx v args
                                  (if sint timeout \<le> 0 then DefaultTimeout else timeout)))) \<and>
   (TimedOut (execInfo (goTask W timeout tcIdx v url cmdRaw)) \<longrightarrow>
      Error (execInfo (goTask W timeout tcIdx v url cmdRaw)) =
        ''timeout after '' @ DurationString W timeout \<and>
      File (execInfo (goTask W timeout tcIdx v url cmdRaw)) = [] \<and>
      err (goTask W timeout tcIdx v url cmdRaw) = Some ''context deadline exceeded'') \<and>
   (wf_Config cfg \<and> (\<forall>j < length (GetTestCases cfg). ctxErr W j = None) \<longrightarrow>
      snd (RunWithContext W cfg) = None \<and>
      (\<forall>i < length (GetTestCases cfg).
         ExecInfo (CommandResults (fst (RunWithContext W cfg)) ! i) =
           map (\<lambda>v. execInfo (goTask W (GetTimeout cfg) i v
                        (case map_of (Versions cfg) v of Some u \<Rightarrow> u | None \<Rightarrow> [])
                        (the (tcCommands (GetTestCases cfg ! i) v))))
               (filter (\<lambda>v. tcCommands (GetTestCases cfg ! i) v \<noteq> None)
                  (sort (map fst (Versions cfg))))))"
proof (intro conjI impI allI)
  show "TimedOut (execInfo (goTask W timeout tcIdx v url cmdRaw)) =
     (Panics W tcIdx v = None \<and>
      (\<exists>args. ShellwordsParse W (FinalCmd W cmdRaw url) = Inr args \<and> args \<noteq> [] \<and>
              DeadlineExceeded (RunProcess W tcIdx v args
                                  (if sint timeout \<le> 0 then DefaultTimeout else timeout))))"
    by (simp only: goTask_TimedOut Execute_TimedOut)
next
  assume t: "TimedOut (execInfo (goTask W timeout tcIdx v url cmdRaw))"
  from goTask_TimedOut_Error[OF t]
  show "Error (execInfo (goTask W timeout tcIdx v url cmdRaw)) =
        ''timeout after '' @ DurationString W timeout"
    and "File (execInfo (goTask W timeout tcIdx v url cmdRaw)) = []"
    and "err (goTask W timeout tcIdx v url cmdRaw) = Some ''context deadline exceeded''"
    by simp_all
next
  assume a: "wf_Config cfg \<and> (\<forall>j < length (GetTestCases cfg). ctxErr W j = None)"
  then have nc: "\<And>j. j < length (GetTestCases cfg) \<Longrightarrow> ctxErr W j = None" by blast
  show "snd (RunWithContext W cfg) = None"
    by (simp add: RunWithContext_completes[OF nc])
  fix i assume i: "i < length (GetTestCases cfg)"
  have r: "\<And>j. j \<le> i \<Longrightarrow> ctxErr W j = None" using nc i by simp
  from a have wf: "wf_Config cfg" by blast
  show "ExecInfo (CommandResults (fst (RunWithContext W cfg)) ! i) =
           map (\<lambda>v. execInfo (goTask W (GetTimeout cfg) i v
                        (case map_of (Versions cfg) v of Some u \<Rightarrow> u | None \<Rightarrow> [])
                        (the (tcCommands (GetTestCases cfg ! i) v))))
               (filter (\<lambda>v. tcCommands (GetTestCases cfg ! i) v \<noteq> None)
                  (sort (map fst (Versions cfg))))"
    by (rule RunWithContext_ExecInfo[OF wf i r])
qed

theorem timed_out_flag_marks_deadline_overrun_witness:
  "TimedOut (execInfo (goTask exampleWorld (GetTimeout timeoutConfig) 0 ''v2'' ''http://slow''
                         ''curl {{BASE_URL}}'')) \<and>
   Panics exampleWorld 0 ''v2'' = None \<and>
   ShellwordsParse exampleWorld (FinalCmd exampleWorld ''curl {{BASE_URL}}'' ''http://slow'') =
     Inr [''curl'', ''http://slow''] \<and>
   DeadlineExceeded (RunProcess exampleWorld 0 ''v2'' [''curl'', ''http://slow'']
                       (GetTimeout timeoutConfig)) \<and>
   Error (execInfo (goTask exampleWorld (GetTimeout timeoutConfig) 0 ''v2'' ''http://slow''
                      ''curl {{BASE_URL}}'')) = ''timeout after 30s'' \<and>
   \<not> TimedOut (execInfo (goTask exampleWorld (GetTimeout timeoutConfig) 0 ''v1'' ''http://a''
                          ''curl {{BASE_URL}}'')) \<and>
   wf_Config timeoutConfig \<and>
   length (GetTestCases timeoutConfig) = 1 \<and>
   ctxErr exampleWorld 0 = None \<and>
   snd (RunWithContext exampleWorld timeoutConfig) = None \<and>
   ExecInfo (CommandResults (fst (RunWithContext exampleWorld timeoutConfig)) ! 0) =
     [\<lparr>Version = ''v1'', File = ''responses/v1.json'', Error = [], TimedOut = False\<rparr>,
      \<lparr>Version = ''v2'', File = [], Error = ''timeout after 30s'', TimedOut = True\<rparr>]"
proof -
  have wf: "wf_Config timeoutConfig"
    by (simp add: wf_Config_def timeoutConfig_def exampleConfig_def)
  have l: "length (GetTestCases timeoutConfig) = 1"
    by (simp add: GetTestCases_def timeoutConfig_def exampleConfig_def)
  have c: "\<forall>j < length (GetTestCases timeoutConfig). ctxErr exampleWorld j = None"
    by (simp add: exampleWorld_def)
  have gt: "GetTimeout timeoutConfig = 30000000000"
    by (simp add: GetTimeout_def timeoutConfig_def exampleConfig_def DefaultTimeout_def Second_def)
  have e: "ExecInfo (CommandResults (fst (RunWithContext exampleWorld timeoutConfig)) ! 0) =
     [\<lparr>Version = ''v1'', File = ''responses/v1.json'', Error = [], TimedOut = False\<rparr>,
      \<lparr>Version = ''v2'', File = [], Error = ''timeout after 30s'', TimedOut = True\<rparr>]"
    by (simp add: engine_defs example_defs timeoutConfig_def Let_def itoa.simps)
  have p: "Panics exampleWorld 0 ''v2'' = None"
    and sp: "ShellwordsParse exampleWorld (FinalCmd exampleWorld ''curl {{BASE_URL}}'' ''http://slow'') =
     Inr [''curl'', ''http://slow'']"
    and de: "DeadlineExceeded (RunProcess exampleWorld 0 ''v2'' [''curl'', ''http://slow'']
                       (GetTimeout timeoutConfig))"
    and ds: "DurationString exampleWorld (GetTimeout timeoutConfig) = ''30s''"
    by (simp_all add: gt exampleWorld_def exampleProc_def itoa.simps)
  have n1: "\<not> TimedOut (execInfo (goTask exampleWorld (GetTimeout timeoutConfig) 0 ''v1'' ''http://a''
                          ''curl {{BASE_URL}}''))"
    by (simp add: gt goTask_def Execute_def exampleWorld_def exampleProc_def Let_def)
  note T = timed_out_flag_marks_deadline_overrun[of exampleWorld "GetTimeout timeoutConfig" 0
      "''v2''" "''http://slow''" "''curl {{BASE_URL}}''" timeoutConfig]
  have t: "TimedOut (execInfo (goTask exampleWorld (GetTimeout timeoutConfig) 0 ''v2''
                         ''http://slow'' ''curl {{BASE_URL}}''))"
    using T p sp de by (simp add: gt DefaultTimeout_def Second_def)
  have er: "Error (execInfo (goTask exampleWorld (GetTimeout timeoutConfig) 0 ''v2'' ''http://slow''
                      ''curl {{BASE_URL}}'')) = ''timeout after 30s''"
    using T t ds by simp
  have s: "snd (RunWithContext exampleWorld timeoutConfig) = None"
    using T wf c by blast
  show ?thesis
    using t p sp de er n1 wf l s e by (simp add: exampleWorld_def)
qed

subsection \<open>Content locators and the entries of the diff list\<close>

lemma find_distinct_key:
  assumes "distinct (map f xs)" and "x \<in> set xs" and "P x" and "\<And>y. P y \<Longrightarrow> f y = k"
    and "f x = k"
  shows "find P xs = Some x"
  using assms
proof (induction xs)
  case Nil
  then show ?case by simp
next
  case (Cons a xs)
  show ?case
  proof (cases "a = x")
    case True
    then show ?thesis using Cons.prems(3) by simp
  next
    case False
    then have x: "x \<in> set xs" using Cons.prems(2) by simp
    have "f a \<noteq> f x" using Cons.prems(1) x by (force simp: image_iff)
    then have "\<not> P a" using Cons.prems(4)[of a] Cons.prems(5) by auto
    moreover have "find P xs = Some x"
      using Cons.IH[OF _ x Cons.prems(3) Cons.prems(4) Cons.prems(5)] Cons.prems(1) by simp
    ultimately show ?thesis by simp
  qed
qed

lemma locator_Some:
  assumes d: "distinct (map Version (ExecInfo cr))"
  shows "(locator cr v = Some p) =
           (\<exists>e \<in> set (ExecInfo cr). Version e = v \<and> File e = p \<and> p \<noteq> [])"
proof
  assume "locator cr v = Some p"
  then obtain e where f: "find (\<lambda>e. Version e = v \<and> File e \<noteq> []) (ExecInfo cr) = Some e"
    and p: "File e = p"
    by (auto simp: locator_def)
  from f have "e \<in> set (ExecInfo cr)" and "Version e = v \<and> File e \<noteq> []"
    by (auto simp: find_Some_iff)
  with p show "\<exists>e \<in> set (ExecInfo cr). Version e = v \<and> File e = p \<and> p \<noteq> []" by blast
next
  assume "\<exists>e \<in> set (ExecInfo cr). Version e = v \<and> File e = p \<and> p \<noteq> []"
  then obtain e where e: "e \<in> set (ExecInfo cr)" "Version e = v" "File e = p" "p \<noteq> []"
    by blast
  have "find (\<lambda>e. Version e = v \<and> File e \<noteq> []) (ExecInfo cr) = Some e"
    by (rule find_distinct_key[OF d e(1), where k = v]) (use e in auto)
  then show "locator cr v = Some p" by (simp add: locator_def e(3))
qed

lemma collectResults_locator:
  assumes d: "distinct vs" and s: "sorted vs"
  shows "collectResults (launched W cfg vs t i tc) = locator (runTestCase W cfg vs t i tc)"
proof (rule ext)
  fix v
  let ?L = "launched W cfg vs t i tc" and ?cr = "runTestCase W cfg vs t i tc"
  have ei: "ExecInfo ?cr = map execInfo ?L"
    by (simp add: runTestCase_eq[OF d s])
  have dv: "distinct (map Version (ExecInfo ?cr))"
    unfolding ei map_Version_launched using d by simp
  have se: "\<And>p. (\<exists>e \<in> set (ExecInfo ?cr). Version e = v \<and> File e = p \<and> p \<noteq> []) =
                 (\<exists>r \<in> set ?L. version r = v \<and> filePath r = p \<and> p \<noteq> [])"
    unfolding ei by (auto simp: launched_eq)
  have "\<And>p. (collectResults ?L v = Some p) = (locator ?cr v = Some p)"
    by (simp only: collectResults_Some[OF distinct_versions_launched[OF d]] locator_Some[OF dv] se)
  then show "collectResults ?L v = locator ?cr v"
    by (metis not_Some_eq)
qed

lemma RunWithContext_Diffs_locator:
  assumes wf: "wf_Config cfg" and i: "i < length (GetTestCases cfg)"
    and r: "\<And>m. m \<le> i \<Longrightarrow> ctxErr W m = None"
  shows "Diffs (CommandResults (fst (RunWithContext W cfg)) ! i) =
     compareVersions W (cfgKeysOnly cfg)
       (locator (CommandResults (fst (RunWithContext W cfg)) ! i))
       (sort (map fst (Versions cfg)))"
proof -
  have "Diffs (CommandResults (fst (RunWithContext W cfg)) ! i) =
     compareVersions W (cfgKeysOnly cfg)
       (collectResults (launched W cfg (sortedVersions cfg) (GetTimeout cfg) i
          (GetTestCases cfg ! i)))
       (sortedVersions cfg)"
    by (rule RunWithContext_Diffs[OF wf i r])
  also have "collectResults (launched W cfg (sortedVersions cfg) (GetTimeout cfg) i
          (GetTestCases cfg ! i)) =
      locator (runTestCase W cfg (sortedVersions cfg) (GetTimeout cfg) i (GetTestCases cfg ! i))"
    by (rule collectResults_locator[OF distinct_sortedVersions[OF wf] sorted_sortedVersions])
  also have "runTestCase W cfg (sortedVersions cfg) (GetTimeout cfg) i (GetTestCases cfg ! i) =
      CommandResults (fst (RunWithContext W cfg)) ! i"
    by (simp only: RunWithContext_nth[OF i r])
  finally show ?thesis by (simp only: sortedVersions_def)
qed

lemma versionDiff_cases:
  "(case (results a, results b) of
      (Some file1, Some file2) \<Rightarrow>
        (case compareFiles W file1 file2 a b ko of
           Inl e \<Rightarrow> DiffResult (versionDiff W ko results a b) = None \<and>
                    vdError (versionDiff W ko results a b) = e
         | Inr (diff, old, new) \<Rightarrow>
             DiffResult (versionDiff W ko results a b) = Some diff \<and>
             OldContent (versionDiff W ko results a b) = old \<and>
             NewContent (versionDiff W ko results a b) = new \<and>
             vdError (versionDiff W ko results a b) = [])
    | (l1, l2) \<Rightarrow>
        DiffResult (versionDiff W ko results a b) = None \<and>
        vdError (versionDiff W ko results a b) =
          ''failed to get responses for version(s): '' @
          joinStrings ((if l1 = None then [a] else []) @ (if l2 = None then [b] else [])) '', '')"
  by (simp add: versionDiff_def Let_def split: option.splits sum.splits prod.splits)

lemma nth_compareVersions:
  "j + 1 < length vs \<Longrightarrow>
   compareVersions W ko results vs ! j = versionDiff W ko results (vs ! j) (vs ! (j + 1))"
  by (simp add: compareVersions_eq)

lemma length_compareVersions [simp]:
  "length (compareVersions W ko results vs) = length vs - 1"
  by (simp add: compareVersions_eq)

lemma versionDiff_DiffResult_iff:
  "(DiffResult (versionDiff W ko results a b) \<noteq> None) =
     (\<exists>file1 file2 x. results a = Some file1 \<and> results b = Some file2 \<and>
                      compareFiles W file1 file2 a b ko = Inr x)"
  using versionDiff_cases[where results = results and a = a and b = b and W = W and ko = ko]
  by (auto split: option.splits sum.splits prod.splits)

text \<open>\<open>compareFiles\<close> succeeds exactly when both files are read, neither is empty and
  the comparison returns a result; it then returns that result and the two contents.\<close>

lemma compareFiles_succeeds_iff:
  "compareFiles W file1 file2 v1 v2 ko = Inr x \<longleftrightarrow>
     (\<exists>b1 b2 d. ReadFile W file1 = Inr b1 \<and> ReadFile W file2 = Inr b2 \<and>
                 b1 \<noteq> [] \<and> b2 \<noteq> [] \<and>
                 CompareWithOptions (Libs W) b1 b2 file1 file2 \<lparr>KeysOnly = ko\<rparr> = Inr d \<and>
                 x = (d, b1, b2))"
  by (auto simp: compareFiles_def split: sum.splits)

lemma compareFiles_fails_iff:
  "compareFiles W file1 file2 v1 v2 ko = Inl e \<longleftrightarrow>
     (case ReadFile W file1 of
        Inl e1 \<Rightarrow> e = ''read file1 error: '' @ e1
      | Inr b1 \<Rightarrow>
          (case ReadFile W file2 of
             Inl e2 \<Rightarrow> e = ''read file2 error: '' @ e2
           | Inr b2 \<Rightarrow>
               if b1 = [] then e = ''empty response content for '' @ v1
               else if b2 = [] then e = ''empty response content for '' @ v2
               else CompareWithOptions (Libs W) b1 b2 file1 file2 \<lparr>KeysOnly = ko\<rparr> = Inl e))"
  by (auto simp: compareFiles_def split: sum.splits)

text \<open>
  Claim C9, as amended. In a test case that the run reaches, the list of diffs has one
  entry for each adjacent pair of the sorted version labels. The entry of the pair
  \<open>(a, b)\<close> is labelled \<open>a\<close> and \<open>b\<close>. It carries a \<open>DiffResult\<close> exactly when the report
  records a content locator (a non-empty file path) for both labels and \<open>compareFiles\<close>
  succeeds on the two files. When both locators are present and \<open>compareFiles\<close> fails (a
  file that cannot be read or is empty, or a failed comparison), the entry carries that
  error and no \<open>DiffResult\<close>. When a locator is missing, the entry carries the error
  \<open>failed to get responses for version(s):\<close> followed by the missing labels.
\<close>

theorem adjacent_pair_entry:
  assumes wf: "wf_Config cfg" and i: "i < length (GetTestCases cfg)"
    and r: "\<And>m. m \<le> i \<Longrightarrow> ctxErr W m = None"
    and vs: "vs = sort (map fst (Versions cfg))"
    and cr: "cr = CommandResults (fst (RunWithContext W cfg)) ! i"
    and j: "j + 1 < length vs"
    and a: "a = vs ! j" and b: "b = vs ! (j + 1)" and d: "d = Diffs cr ! j"
  shows "length (Diffs cr) = length vs - 1 \<and> VersionA d = a \<and> VersionB d = b \<and>
         (DiffResult d \<noteq> None) =
           (\<exists>file1 file2 x. locator cr a = Some file1 \<and> locator cr b = Some file2 \<and>
                            compareFiles W file1 file2 a b (cfgKeysOnly cfg) = Inr x) \<and>
         (case (locator cr a, locator cr b) of
            (Some file1, Some file2) \<Rightarrow>
              (case compareFiles W file1 file2 a b (cfgKeysOnly cfg) of
                 Inl e \<Rightarrow> DiffResult d = None \<and> vdError d = e
               | Inr (diff, old, new) \<Rightarrow>
                   DiffResult d = Some diff \<and> OldContent d = old \<and> NewContent d = new \<and>
                   vdError d = [])
          | (l1, l2) \<Rightarrow>
              DiffResult d = None \<and>
              vdError d = ''failed to get responses for version(s): '' @
                joinStrings ((if l1 = None then [a] else []) @ (if l2 = None then [b] else []))
                  '', '')"
proof -
  have D: "Diffs cr = compareVersions W (cfgKeysOnly cfg) (locator cr) vs"
    unfolding cr vs by (rule RunWithContext_Diffs_locator[OF wf i r])
  have dj: "d = versionDiff W (cfgKeysOnly cfg) (locator cr) a b"
    unfolding d a b D by (rule nth_compareVersions[OF j])
  have c1: "length (Diffs cr) = length vs - 1" by (simp add: D)
  have c2: "VersionA d = a" and c3: "VersionB d = b" by (simp_all add: dj)
  have c4: "(DiffResult d \<noteq> None) =
           (\<exists>file1 file2 x. locator cr a = Some file1 \<and> locator cr b = Some file2 \<and>
                            compareFiles W file1 file2 a b (cfgKeysOnly cfg) = Inr x)"
    unfolding dj by (rule versionDiff_DiffResult_iff)
  have c5: "(case (locator cr a, locator cr b) of
            (Some file1, Some file2) \<Rightarrow>
              (case compareFiles W file1 file2 a b (cfgKeysOnly cfg) of
                 Inl e \<Rightarrow> DiffResult d = None \<and> vdError d = e
               | Inr (diff, old, new) \<Rightarrow>
                   DiffResult d = Some diff \<and> OldContent d = old \<and> NewContent d = new \<and>
                   vdError d = [])
          | (l1, l2) \<Rightarrow>
              DiffResult d = None \<and>
              vdError d = ''failed to get responses for version(s): '' @
                joinStrings ((if l1 = None then [a] else []) @ (if l2 = None then [b] else []))
                  '', '')"
    unfolding dj by (rule versionDiff_cases)
  show ?thesis
    by (intro conjI c1 c2 c3 c4 c5)
qed

theorem adjacent_pair_entry_witness:
  \<open>wf_Config exampleConfig \<and> 0 < length (GetTestCases exampleConfig) \<and>
   ctxErr exampleWorld 0 = None \<and>
   sort (map fst (Versions exampleConfig)) = [''v1'', ''v2''] \<and>
   locator (CommandResults (fst (RunWithContext exampleWorld exampleConfig)) ! 0) ''v1'' =
     Some ''responses/v1.json'' \<and>
   locator (CommandResults (fst (RunWithContext exampleWorld exampleConfig)) ! 0) ''v2'' =
     Some ''responses/v2.json'' \<and>
   compareFiles exampleWorld ''responses/v1.json'' ''responses/v2.json'' ''v1'' ''v2'' False =
     Inr (\<lparr>TextDiff = ''@@'', JsonPatch = ''[]'', Summary = fieldAdded ''b'', IsJSON = True\<rparr>,
          ''{"a":1}'', ''{"a":1,"b":2}'') \<and>
   length (Diffs (CommandResults (fst (RunWithContext exampleWorld exampleConfig)) ! 0)) = 1 \<and>
   Diffs (CommandResults (fst (RunWithContext exampleWorld exampleConfig)) ! 0) ! 0 =
     \<lparr>VersionA = ''v1'', VersionB = ''v2'',
      DiffResult = Some \<lparr>TextDiff = ''@@'', JsonPatch = ''[]'', Summary = fieldAdded ''b'',
                         IsJSON = True\<rparr>,
      OldContent = ''{"a":1}'', NewContent = ''{"a":1,"b":2}'', vdError = []\<rparr>\<close>
proof -
  let ?cr = "CommandResults (fst (RunWithContext exampleWorld exampleConfig)) ! 0"
  have wf: "wf_Config exampleConfig"
    by (simp add: wf_Config_def exampleConfig_def)
  have i: "0 < length (GetTestCases exampleConfig)"
    by (simp add: GetTestCases_def exampleConfig_def)
  have r: "\<And>m. m \<le> 0 \<Longrightarrow> ctxErr exampleWorld m = None"
    by (simp add: exampleWorld_def)
  have s: "[''v1'', ''v2''] = sort (map fst (Versions exampleConfig))"
    by (simp add: exampleConfig_def)
  have j: "0 + 1 < length [''v1'', ''v2'']" by simp
  have a: "''v1'' = [''v1'', ''v2''] ! 0" and b: "''v2'' = [''v1'', ''v2''] ! (0 + 1)" by simp_all
  note T = adjacent_pair_entry[OF wf i r s refl j a b refl]
  have l1: "locator ?cr ''v1'' = Some ''responses/v1.json''"
    and l2: "locator ?cr ''v2'' = Some ''responses/v2.json''"
    by (simp_all add: locator_def engine_defs example_defs compare_defs Let_def itoa.simps)
  have c: \<open>compareFiles exampleWorld ''responses/v1.json'' ''responses/v2.json'' ''v1'' ''v2'' False =
     Inr (\<lparr>TextDiff = ''@@'', JsonPatch = ''[]'', Summary = fieldAdded ''b'', IsJSON = True\<rparr>,
          ''{"a":1}'', ''{"a":1,"b":2}'')\<close>
    by (simp add: engine_defs example_defs compare_defs Let_def itoa.simps)
  have k: "cfgKeysOnly exampleConfig = False" by (simp add: exampleConfig_def)
  from T have len: "length (Diffs ?cr) = 1"
    and va: "VersionA (Diffs ?cr ! 0) = ''v1''" and vb: "VersionB (Diffs ?cr ! 0) = ''v2''"
    and rest: \<open>DiffResult (Diffs ?cr ! 0) =
        Some \<lparr>TextDiff = ''@@'', JsonPatch = ''[]'', Summary = fieldAdded ''b'', IsJSON = True\<rparr> \<and>
      OldContent (Diffs ?cr ! 0) = ''{"a":1}'' \<and> NewContent (Diffs ?cr ! 0) = ''{"a":1,"b":2}'' \<and>
      vdError (Diffs ?cr ! 0) = []\<close>
    by (simp_all add: l1 l2 c k)
  have eq: \<open>Diffs ?cr ! 0 =
     \<lparr>VersionA = ''v1'', VersionB = ''v2'',
      DiffResult = Some \<lparr>TextDiff = ''@@'', JsonPatch = ''[]'', Summary = fieldAdded ''b'',
                         IsJSON = True\<rparr>,
      OldContent = ''{"a":1}'', NewContent = ''{"a":1,"b":2}'', vdError = []\<rparr>\<close>
    using va vb rest by (cases "Diffs ?cr ! 0") simp
  show ?thesis
    using wf i r[of 0] s[symmetric] l1 l2 c len eq by simp
qed

text \<open>
  The claim as stated fails where both labels have a content locator and the files cannot
  be compared: the server of \<open>v4\<close> answers with no bytes, the stored file is empty, and
  the entry for \<open>(v1, v4)\<close> carries the error \<open>empty response content for v4\<close> and no
  \<open>DiffResult\<close>.
\<close>

theorem adjacent_pair_entry_counterexample:
  "map Version (ExecInfo (CommandResults (fst (RunWithContext exampleWorld emptyConfig)) ! 0)) =
     [''v1'', ''v4''] \<and>
   map File (ExecInfo (CommandResults (fst (RunWithContext exampleWorld emptyConfig)) ! 0)) =
     [''responses/v1.json'', ''responses/v4.json''] \<and>
   locator (CommandResults (fst (RunWithContext exampleWorld emptyConfig)) ! 0) ''v1'' =
     Some ''responses/v1.json'' \<and>
   locator (CommandResults (fst (RunWithContext exampleWorld emptyConfig)) ! 0) ''v4'' =
     Some ''responses/v4.json'' \<and>
   Diffs (CommandResults (fst (RunWithContext exampleWorld emptyConfig)) ! 0) =
     [\<lparr>VersionA = ''v1'', VersionB = ''v4'', DiffResult = None,
       OldContent = [], NewContent = [],
       vdError = ''empty response content for v4''\<rparr>]"
  by (simp add: locator_def emptyConfig_def engine_defs example_defs compare_defs Let_def
      itoa.simps)

subsection \<open>Counting the entries that carry a result\<close>

lemma length_filter_range:
  assumes "h \<le> Suc m" and "l < h"
  shows "length (filter (\<lambda>j. l \<le> j \<and> j + 1 < h) [0 ..< m]) = h - l - 1"
proof -
  have "length (filter (\<lambda>j. l \<le> j \<and> j + 1 < h) [0 ..< m]) =
        card {i. i < length [0 ..< m] \<and> (l \<le> [0 ..< m] ! i \<and> [0 ..< m] ! i + 1 < h)}"
    by (rule length_filter_conv_card)
  also have "{i. i < length [0 ..< m] \<and> (l \<le> [0 ..< m] ! i \<and> [0 ..< m] ! i + 1 < h)} =
      {l ..< h - 1}"
    using assms by auto
  finally show ?thesis by simp
qed

lemma count_with_content:
  assumes dvs: "distinct vs" and lh: "l \<le> h" "h \<le> length vs"
    and des: "distinct (map Version es)" and sub: "set (map Version es) \<subseteq> set vs"
    and content: "\<And>j. j < length vs \<Longrightarrow> (loc (vs ! j) \<noteq> None) = (l \<le> j \<and> j < h)"
    and loc: "\<And>v. (loc v \<noteq> None) = (\<exists>e \<in> set es. Version e = v \<and> File e \<noteq> [])"
  shows "length (filter (\<lambda>e. File e \<noteq> []) es) = h - l"
proof -
  let ?A = "filter (\<lambda>e. File e \<noteq> []) es"
  have dA: "distinct (map Version ?A)" using des by (rule distinct_map_filter)
  have "length ?A = length (map Version ?A)" by simp
  also have "\<dots> = card (set (map Version ?A))" using dA by (simp only: distinct_card)
  also have "set (map Version ?A) = (\<lambda>j. vs ! j) ` {l ..< h}"
  proof (rule set_eqI)
    fix v
    show "(v \<in> set (map Version ?A)) = (v \<in> (\<lambda>j. vs ! j) ` {l ..< h})"
    proof
      assume "v \<in> set (map Version ?A)"
      then obtain e where e: "e \<in> set es" "File e \<noteq> []" "Version e = v" by auto
      then have lv: "loc v \<noteq> None" using loc[of v] by blast
      have "v \<in> set vs" using sub e by auto
      then obtain j where j: "j < length vs" "vs ! j = v" by (auto simp: in_set_conv_nth)
      with lv content[of j] have "l \<le> j \<and> j < h" by simp
      with j show "v \<in> (\<lambda>j. vs ! j) ` {l ..< h}" by auto
    next
      assume "v \<in> (\<lambda>j. vs ! j) ` {l ..< h}"
      then obtain j where j: "l \<le> j" "j < h" "v = vs ! j" by auto
      then have "j < length vs" using lh by simp
      with j content[of j] have "loc v \<noteq> None" by simp
      with loc[of v] obtain e where "e \<in> set es" "Version e = v" "File e \<noteq> []" by blast
      then show "v \<in> set (map Version ?A)" by auto
    qed
  qed
  also have "card ((\<lambda>j. vs ! j) ` {l ..< h}) = card {l ..< h}"
  proof (rule card_image)
    show "inj_on (\<lambda>j. vs ! j) {l ..< h}"
      using dvs lh by (auto simp: inj_on_def nth_eq_iff_index_eq)
  qed
  finally show ?thesis by simp
qed

lemma locator_not_None:
  "(locator cr v \<noteq> None) = (\<exists>e \<in> set (ExecInfo cr). Version e = v \<and> File e \<noteq> [])"
  by (auto simp: locator_def find_None_iff)

text \<open>
  Claim C3, as amended. In a test case that the run reaches, let the sorted version labels
  that produced content (those with a content locator in the report) be at least two and
  adjacent in the sorted list of the configured labels (positions \<open>l\<close> up to \<open>h - 1\<close>), and
  let \<open>compareFiles\<close> succeed on each adjacent pair of them. Then the number of entries that
  carry a \<open>DiffResult\<close> is the number of labels that produced content minus one. (The list
  of diffs itself has one entry per adjacent pair of configured labels, with or without a
  \<open>DiffResult\<close>.)
\<close>

theorem diff_results_of_adjacent_content:
  assumes wf: "wf_Config cfg" and i: "i < length (GetTestCases cfg)"
    and r: "\<And>m. m \<le> i \<Longrightarrow> ctxErr W m = None"
    and vs: "vs = sort (map fst (Versions cfg))"
    and cr: "cr = CommandResults (fst (RunWithContext W cfg)) ! i"
    and lh: "l + 2 \<le> h" "h \<le> length vs"
    and content: "\<And>j. j < length vs \<Longrightarrow> (locator cr (vs ! j) \<noteq> None) = (l \<le> j \<and> j < h)"
    and ok: "\<And>j. l \<le> j \<Longrightarrow> j + 1 < h \<Longrightarrow>
               \<exists>x. compareFiles W (the (locator cr (vs ! j))) (the (locator cr (vs ! (j + 1))))
                      (vs ! j) (vs ! (j + 1)) (cfgKeysOnly cfg) = Inr x"
  shows "length (filter (\<lambda>e. File e \<noteq> []) (ExecInfo cr)) = h - l \<and>
         length (filter (\<lambda>d. DiffResult d \<noteq> None) (Diffs cr)) = h - l - 1 \<and>
         length (Diffs cr) = length vs - 1"
proof (intro conjI)
  have dvs: "distinct vs" unfolding vs using wf by (simp add: wf_Config_def)
  have D: "Diffs cr = compareVersions W (cfgKeysOnly cfg) (locator cr) vs"
    unfolding cr vs by (rule RunWithContext_Diffs_locator[OF wf i r])
  have V: "map Version (ExecInfo cr) =
      filter (\<lambda>v. tcCommands (GetTestCases cfg ! i) v \<noteq> None) vs"
    unfolding cr vs by (simp add: RunWithContext_ExecInfo[OF wf i r] comp_def)
  have des: "distinct (map Version (ExecInfo cr))"
    unfolding V using dvs by simp
  have sub: "set (map Version (ExecInfo cr)) \<subseteq> set vs"
    unfolding V by auto
  show "length (filter (\<lambda>e. File e \<noteq> []) (ExecInfo cr)) = h - l"
    by (rule count_with_content[OF dvs _ lh(2) des sub content locator_not_None])
       (use lh in simp_all)
  show "length (Diffs cr) = length vs - 1" by (simp add: D)
  have P: "\<And>j. j < length vs - 1 \<Longrightarrow>
      (DiffResult (versionDiff W (cfgKeysOnly cfg) (locator cr) (vs ! j) (vs ! (j + 1))) \<noteq> None)
        = (l \<le> j \<and> j + 1 < h)"
  proof -
    fix j assume j: "j < length vs - 1"
    then have j0: "j < length vs" and j1: "j + 1 < length vs" by simp_all
    show "(DiffResult (versionDiff W (cfgKeysOnly cfg) (locator cr) (vs ! j) (vs ! (j + 1))) \<noteq> None)
        = (l \<le> j \<and> j + 1 < h)"
    proof
      assume "DiffResult (versionDiff W (cfgKeysOnly cfg) (locator cr) (vs ! j) (vs ! (j + 1)))
                \<noteq> None"
      then obtain f1 f2 where "locator cr (vs ! j) = Some f1"
        and "locator cr (vs ! (j + 1)) = Some f2"
        unfolding versionDiff_DiffResult_iff by blast
      then have "locator cr (vs ! j) \<noteq> None" and "locator cr (vs ! (j + 1)) \<noteq> None"
        by simp_all
      with content[OF j0] content[OF j1] show "l \<le> j \<and> j + 1 < h" by simp
    next
      assume a: "l \<le> j \<and> j + 1 < h"
      then have "locator cr (vs ! j) \<noteq> None" and "locator cr (vs ! (j + 1)) \<noteq> None"
        using content[OF j0] content[OF j1] by simp_all
      then obtain f1 f2 where f: "locator cr (vs ! j) = Some f1" "locator cr (vs ! (j + 1)) = Some f2"
        by auto
      from ok[of j] a f obtain x where
        "compareFiles W f1 f2 (vs ! j) (vs ! (j + 1)) (cfgKeysOnly cfg) = Inr x"
        by auto
      with f show "DiffResult (versionDiff W (cfgKeysOnly cfg) (locator cr) (vs ! j) (vs ! (j + 1)))
                \<noteq> None"
        by (simp only: versionDiff_DiffResult_iff) blast
    qed
  qed
  have fc: "filter (\<lambda>j. DiffResult (versionDiff W (cfgKeysOnly cfg) (locator cr) (vs ! j)
                                   (vs ! (j + 1))) \<noteq> None) [0 ..< length vs - 1] =
      filter (\<lambda>j. l \<le> j \<and> j + 1 < h) [0 ..< length vs - 1]"
  proof (rule filter_cong[OF refl])
    fix j assume "j \<in> set [0 ..< length vs - 1]"
    then have "j < length vs - 1" by simp
    then show "(DiffResult (versionDiff W (cfgKeysOnly cfg) (locator cr) (vs ! j)
                  (vs ! (j + 1))) \<noteq> None) = (l \<le> j \<and> j + 1 < h)"
      by (rule P)
  qed
  have "length (filter (\<lambda>d. DiffResult d \<noteq> None) (Diffs cr)) =
      length (filter (\<lambda>j. DiffResult (versionDiff W (cfgKeysOnly cfg) (locator cr) (vs ! j)
                                   (vs ! (j + 1))) \<noteq> None) [0 ..< length vs - 1])"
    unfolding D compareVersions_eq filter_map length_map comp_def ..
  also have "\<dots> = length (filter (\<lambda>j. l \<le> j \<and> j + 1 < h) [0 ..< length vs - 1])"
    by (simp only: fc)
  also have "\<dots> = h - l - 1"
    by (rule length_filter_range) (use lh in simp_all)
  finally show "length (filter (\<lambda>d. DiffResult d \<noteq> None) (Diffs cr)) = h - l - 1" .
qed

theorem diff_results_of_adjacent_content_witness:
  \<open>wf_Config exampleConfig \<and> 0 < length (GetTestCases exampleConfig) \<and>
   ctxErr exampleWorld 0 = None \<and>
   sort (map fst (Versions exampleConfig)) = [''v1'', ''v2''] \<and>
   locator (CommandResults (fst (RunWithContext exampleWorld exampleConfig)) ! 0) ''v1'' =
     Some ''responses/v1.json'' \<and>
   locator (CommandResults (fst (RunWithContext exampleWorld exampleConfig)) ! 0) ''v2'' =
     Some ''responses/v2.json'' \<and>
   compareFiles exampleWorld ''responses/v1.json'' ''responses/v2.json'' ''v1'' ''v2''
       (cfgKeysOnly exampleConfig) =
     Inr (\<lparr>TextDiff = ''@@'', JsonPatch = ''[]'', Summary = fieldAdded ''b'', IsJSON = True\<rparr>,
          ''{"a":1}'', ''{"a":1,"b":2}'') \<and>
   length (filter (\<lambda>e. File e \<noteq> [])
     (ExecInfo (CommandResults (fst (RunWithContext exampleWorld exampleConfig)) ! 0))) = 2 \<and>
   length (filter (\<lambda>d. DiffResult d \<noteq> None)
     (Diffs (CommandResults (fst (RunWithContext exampleWorld exampleConfig)) ! 0))) = 1 \<and>
   length (Diffs (CommandResults (fst (RunWithContext exampleWorld exampleConfig)) ! 0)) = 1\<close>
proof -
  let ?cr = "CommandResults (fst (RunWithContext exampleWorld exampleConfig)) ! 0"
  let ?vs = "[''v1'', ''v2'']"
  have wf: "wf_Config exampleConfig"
    by (simp add: wf_Config_def exampleConfig_def)
  have i: "0 < length (GetTestCases exampleConfig)"
    by (simp add: GetTestCases_def exampleConfig_def)
  have r: "\<And>m. m \<le> 0 \<Longrightarrow> ctxErr exampleWorld m = None"
    by (simp add: exampleWorld_def)
  have s: "?vs = sort (map fst (Versions exampleConfig))"
    by (simp add: exampleConfig_def)
  have l1: "locator ?cr ''v1'' = Some ''responses/v1.json''"
    and l2: "locator ?cr ''v2'' = Some ''responses/v2.json''"
    by (simp_all add: locator_def engine_defs example_defs compare_defs Let_def itoa.simps)
  have c: \<open>compareFiles exampleWorld ''responses/v1.json'' ''responses/v2.json'' ''v1'' ''v2''
       (cfgKeysOnly exampleConfig) =
     Inr (\<lparr>TextDiff = ''@@'', JsonPatch = ''[]'', Summary = fieldAdded ''b'', IsJSON = True\<rparr>,
          ''{"a":1}'', ''{"a":1,"b":2}'')\<close>
    by (simp add: engine_defs example_defs compare_defs Let_def itoa.simps)
  have lh: "0 + 2 \<le> (2::nat)" "2 \<le> length ?vs" by simp_all
  have content: "\<And>j. j < length ?vs \<Longrightarrow> (locator ?cr (?vs ! j) \<noteq> None) = (0 \<le> j \<and> j < 2)"
  proof -
    fix j :: nat assume "j < length ?vs"
    then have "j = 0 \<or> j = 1" by auto
    then show "(locator ?cr (?vs ! j) \<noteq> None) = (0 \<le> j \<and> j < 2)"
      using l1 l2 by auto
  qed
  have ok: "\<And>j. 0 \<le> j \<Longrightarrow> j + 1 < 2 \<Longrightarrow>
      \<exists>x. compareFiles exampleWorld (the (locator ?cr (?vs ! j))) (the (locator ?cr (?vs ! (j + 1))))
             (?vs ! j) (?vs ! (j + 1)) (cfgKeysOnly exampleConfig) = Inr x"
  proof -
    fix j :: nat assume "0 \<le> j" and "j + 1 < 2"
    then have j: "j = 0" by simp
    show "\<exists>x. compareFiles exampleWorld (the (locator ?cr (?vs ! j)))
             (the (locator ?cr (?vs ! (j + 1)))) (?vs ! j) (?vs ! (j + 1))
             (cfgKeysOnly exampleConfig) = Inr x"
      unfolding j using c by (simp add: l1 l2)
  qed
  from diff_results_of_adjacent_content[OF wf i r s refl lh content ok]
  show ?thesis
    using wf i r[of 0] s[symmetric] l1 l2 c by simp
qed

text \<open>
  The claim as stated fails where the labels that produced content are not adjacent in the
  sorted list: of \<open>v1\<close>, \<open>v2\<close>, \<open>v3\<close> the server of \<open>v2\<close> refuses the connection, two
  labels produced content, and neither entry carries a \<open>DiffResult\<close>.
\<close>

theorem diff_results_of_adjacent_content_counterexample:
  "map Version (ExecInfo (CommandResults (fst (RunWithContext exampleWorld gapConfig)) ! 0)) =
     [''v1'', ''v2'', ''v3''] \<and>
   map File (ExecInfo (CommandResults (fst (RunWithContext exampleWorld gapConfig)) ! 0)) =
     [''responses/v1.json'', [], ''responses/v3.json''] \<and>
   map DiffResult (Diffs (CommandResults (fst (RunWithContext exampleWorld gapConfig)) ! 0)) =
     [None, None] \<and>
   map vdError (Diffs (CommandResults (fst (RunWithContext exampleWorld gapConfig)) ! 0)) =
     [''failed to get responses for version(s): v2'',
      ''failed to get responses for version(s): v2'']"
  by (simp add: gapConfig_def engine_defs example_defs compare_defs Let_def itoa.simps)

subsection \<open>Cancellation\<close>

text \<open>
  Claim C4 on the code. The context is done when the loop checks it before the second of
  three test cases. The run stops there and returns the context's error, and the error
  list says so; the first test case is reported. But the list of command results was
  allocated with one entry per test case, and the two entries of the test cases that never
  ran are returned with it, as zero values.
\<close>

theorem cancelled_run_returns_placeholders:
  "snd (RunWithContext cancelledWorld threeCommandsConfig) = Some Canceled \<and>
   Errors (fst (RunWithContext cancelledWorld threeCommandsConfig)) =
     [''operation cancelled: context canceled''] \<and>
   length (CommandResults (fst (RunWithContext cancelledWorld threeCommandsConfig))) = 3 \<and>
   map TestCaseName (CommandResults (fst (RunWithContext cancelledWorld threeCommandsConfig))) =
     [''Command 1'', [], []] \<and>
   map (\<lambda>c. map Version (ExecInfo c))
       (CommandResults (fst (RunWithContext cancelledWorld threeCommandsConfig))) =
     [[''v1'', ''v2''], [], []] \<and>
   drop 1 (CommandResults (fst (RunWithContext cancelledWorld threeCommandsConfig))) =
     [zeroCommandResult, zeroCommandResult]"
  by (simp add: cancelledWorld_def threeCommandsConfig_def engine_defs example_defs compare_defs
      Let_def itoa.simps)

section \<open>Further properties\<close>

text \<open>
  Cancellation, in general. When the context is first found done at the check before the
  test case at index \<open>k\<close>, the run returns the context's error; the error list holds the
  one message \<open>operation cancelled:\<close> with the error's text; and the list of command
  results holds the results of the test cases before \<open>k\<close>, in their order, followed by one
  zero value for each test case from \<open>k\<close> on.
\<close>

theorem cancellation_stops_the_run:
  assumes "k < length (GetTestCases cfg)"
    and "\<forall>j < k. ctxErr W j = None"
    and "ctxErr W k = Some e"
  shows "RunWithContext W cfg =
     (\<lparr>CommandResults =
         map (\<lambda>(j, tc). runTestCase W cfg (sort (map fst (Versions cfg))) (GetTimeout cfg) j tc)
             (enumerate 0 (take k (GetTestCases cfg))) @
         replicate (length (GetTestCases cfg) - k) zeroCommandResult,
       Errors = [''operation cancelled: '' @ ctxErrorText e]\<rparr>, Some e)"
proof -
  have l: "\<And>j. j < k \<Longrightarrow> ctxErr W j = None" using assms(2) by blast
  show ?thesis
    using RunWithContext_cancelled[OF assms(1) l assms(3)]
    by (simp add: ranCases_def sortedVersions_def)
qed

theorem cancellation_stops_the_run_witness:
  "1 < length (GetTestCases threeCommandsConfig) \<and>
   ctxErr cancelledWorld 0 = None \<and>
   ctxErr cancelledWorld 1 = Some Canceled \<and>
   RunWithContext cancelledWorld threeCommandsConfig =
     (\<lparr>CommandResults =
         [runTestCase cancelledWorld threeCommandsConfig [''v1'', ''v2''] 30000000000 0
            (GetTestCases threeCommandsConfig ! 0),
          zeroCommandResult, zeroCommandResult],
       Errors = [''operation cancelled: context canceled'']\<rparr>, Some Canceled)"
proof -
  have k: "1 < length (GetTestCases threeCommandsConfig)"
    by (simp add: GetTestCases_def threeCommandsConfig_def exampleConfig_def)
  have l: "\<forall>j < 1. ctxErr cancelledWorld j = None"
    by (simp add: cancelledWorld_def)
  have e: "ctxErr cancelledWorld 1 = Some Canceled"
    by (simp add: cancelledWorld_def)
  have n: "length (GetTestCases threeCommandsConfig) = 3"
    by (simp add: GetTestCases_def threeCommandsConfig_def exampleConfig_def)
  have t: "take (Suc 0) (GetTestCases threeCommandsConfig) = [GetTestCases threeCommandsConfig ! 0]"
    using n by (cases "GetTestCases threeCommandsConfig") simp_all
  have s: "sort (map fst (Versions threeCommandsConfig)) = [''v1'', ''v2'']"
    by (simp add: threeCommandsConfig_def exampleConfig_def)
  have g: "GetTimeout threeCommandsConfig = 30000000000"
    by (simp add: GetTimeout_def threeCommandsConfig_def exampleConfig_def DefaultTimeout_def
        Second_def)
  have r: "replicate 2 zeroCommandResult = [zeroCommandResult, zeroCommandResult]"
    by (simp add: numeral_2_eq_2)
  show ?thesis
    using cancellation_stops_the_run[OF k l e] k e l
    by (simp add: t s g n r)
qed

text \<open>
  A run that is never cancelled returns no error, no message, and the result of every test
  case, in the order of the test cases.
\<close>

theorem uncancelled_run_reports_every_test_case:
  assumes "\<forall>j < length (GetTestCases cfg). ctxErr W j = None"
  shows "RunWithContext W cfg =
     (\<lparr>CommandResults =
         map (\<lambda>(j, tc). runTestCase W cfg (sort (map fst (Versions cfg))) (GetTimeout cfg) j tc)
             (enumerate 0 (GetTestCases cfg)),
       Errors = []\<rparr>, None)"
proof -
  have l: "\<And>j. j < length (GetTestCases cfg) \<Longrightarrow> ctxErr W j = None" using assms by blast
  show ?thesis
    using RunWithContext_completes[OF l]
    by (simp add: ranCases_def sortedVersions_def)
qed

theorem uncancelled_run_reports_every_test_case_witness:
  "length (GetTestCases exampleConfig) = 1 \<and>
   ctxErr exampleWorld 0 = None \<and>
   RunWithContext exampleWorld exampleConfig =
     (\<lparr>CommandResults =
         [runTestCase exampleWorld exampleConfig [''v1'', ''v2''] 30000000000 0
            (GetTestCases exampleConfig ! 0)],
       Errors = []\<rparr>, None)"
proof -
  have n: "length (GetTestCases exampleConfig) = 1"
    by (simp add: GetTestCases_def exampleConfig_def)
  have l: "\<forall>j < length (GetTestCases exampleConfig). ctxErr exampleWorld j = None"
    by (simp add: exampleWorld_def)
  have t: "GetTestCases exampleConfig = [GetTestCases exampleConfig ! 0]"
    using n by (cases "GetTestCases exampleConfig") simp_all
  have s: "sort (map fst (Versions exampleConfig)) = [''v1'', ''v2'']"
    by (simp add: exampleConfig_def)
  have g: "GetTimeout exampleConfig = 30000000000"
    by (simp add: GetTimeout_def exampleConfig_def DefaultTimeout_def Second_def)
  have en: "enumerate 0 (GetTestCases exampleConfig) = [(0, GetTestCases exampleConfig ! 0)]"
    by (subst t) simp
  show ?thesis
    using uncancelled_run_reports_every_test_case[OF l] n l
    by (simp add: en s g)
qed

text \<open>
  With fewer than two configured version labels, every test case that the run reaches has
  an empty list of diffs.
\<close>

theorem fewer_than_two_versions_no_diffs:
  assumes "wf_Config cfg" and "i < length (GetTestCases cfg)"
    and "\<forall>j \<le> i. ctxErr W j = None"
    and "length (Versions cfg) < 2"
  shows "Diffs (CommandResults (fst (RunWithContext W cfg)) ! i) = []"
proof -
  have r: "\<And>j. j \<le> i \<Longrightarrow> ctxErr W j = None" using assms(3) by blast
  have "length (sortedVersions cfg) < 2" using assms(4) by (simp add: sortedVersions_def)
  then show ?thesis
    by (simp add: RunWithContext_Diffs[OF assms(1,2) r] compareVersions_def)
qed

theorem fewer_than_two_versions_no_diffs_witness:
  "wf_Config singleConfig \<and> 0 < length (GetTestCases singleConfig) \<and>
   ctxErr exampleWorld 0 = None \<and> length (Versions singleConfig) = 1 \<and>
   Diffs (CommandResults (fst (RunWithContext exampleWorld singleConfig)) ! 0) = []"
proof -
  have wf: "wf_Config singleConfig"
    by (simp add: wf_Config_def singleConfig_def exampleConfig_def)
  have i: "0 < length (GetTestCases singleConfig)"
    by (simp add: GetTestCases_def singleConfig_def exampleConfig_def)
  have r: "\<forall>j \<le> 0. ctxErr exampleWorld j = None" by (simp add: exampleWorld_def)
  have l: "length (Versions singleConfig) < 2" and l1: "length (Versions singleConfig) = 1"
    by (simp_all add: singleConfig_def)
  show ?thesis
    using fewer_than_two_versions_no_diffs[OF wf i r l] wf i r l1 by simp
qed

lemma deepEqual_refl: "Marshal L v = Inr s \<Longrightarrow> deepEqual L v v"
  by (simp add: deepEqual_def)

text \<open>
  A buffer compared with itself in full mode. If the buffer decodes, \<open>json.Marshal\<close>
  succeeds on the elements of a decoded array and on the values of a decoded object (whose
  keys are distinct), and the patch library returns a patch, then the summary is
  \<open>No top-level changes\<close>.
\<close>

theorem full_compare_with_itself:
  assumes u: "Unmarshal L original = Inr v"
    and p: "JsondiffCompare L v v = Inr patch"
    and m: "\<And>x. \<exists>s. Marshal L x = Inr s"
    and d: "\<And>m. v = JObject m \<Longrightarrow> distinct (map fst m)"
  shows "\<exists>r. Compare L original original name1 name2 = Inr r \<and>
             Summary r = ''No top-level changes''"
proof -
  have de: "\<And>x. deepEqual L x x" using m deepEqual_refl by blast
  have "summarizeDifferences L v v = ''No top-level changes''"
  proof (cases v)
    case (JArray arr)
    show ?thesis unfolding JArray summarizeDifferences_arrays by (simp add: de)
  next
    case (JObject mp)
    have dm: "distinct (map fst mp)" using d JObject by simp
    show ?thesis
      unfolding JObject summarizeDifferences_objects[OF dm dm] by (simp add: Let_def de)
  qed (simp_all add: summarizeDifferences_def)
  with compareAsJSON_full_summary[OF u u p, of name1 name2] show ?thesis by simp
qed

theorem full_compare_with_itself_witness:
  \<open>Unmarshal exampleLibs ''{"a":1,"b":2}'' = Inr (JObject [(''a'', JNumber 1), (''b'', JNumber 2)]) \<and>
   JsondiffCompare exampleLibs (JObject [(''a'', JNumber 1), (''b'', JNumber 2)])
     (JObject [(''a'', JNumber 1), (''b'', JNumber 2)]) = Inr () \<and>
   Marshal exampleLibs (JNumber 1) = Inr ''1'' \<and>
   distinct (map fst [(''a'', JNumber (1::nat)), (''b'', JNumber 2)]) \<and>
   (\<exists>r. Compare exampleLibs ''{"a":1,"b":2}'' ''{"a":1,"b":2}'' ''v1'' ''v2'' = Inr r \<and>
        Summary r = ''No top-level changes'')\<close>
proof -
  have u: \<open>Unmarshal exampleLibs ''{"a":1,"b":2}'' =
      Inr (JObject [(''a'', JNumber 1), (''b'', JNumber 2)])\<close>
    and p: "JsondiffCompare exampleLibs (JObject [(''a'', JNumber 1), (''b'', JNumber 2)])
     (JObject [(''a'', JNumber 1), (''b'', JNumber 2)]) = Inr ()"
    and m1: "Marshal exampleLibs (JNumber 1) = Inr ''1''"
    by (simp_all add: exampleLibs_def exampleTexts_def itoa.simps)
  have m: "\<And>x. \<exists>s. Marshal exampleLibs x = Inr s"
    by (simp add: exampleLibs_def)
  have d: "\<And>m. JObject [(''a'', JNumber (1::nat)), (''b'', JNumber 2)] = JObject m \<Longrightarrow>
      distinct (map fst m)"
    by auto
  have d0: "distinct (map fst [(''a'', JNumber (1::nat)), (''b'', JNumber 2)])" by simp
  from full_compare_with_itself[OF u p m d, of "''v1''" "''v2''"]
  show ?thesis using u p m1 d0 by simp
qed

end
